theory Spec2Isabelle
  imports Complex_Main
begin

section \<open>The heartbeat particle field of \<^verbatim>\<open>src/App.tsx\<close>\<close>

text \<open>
  The component has three parts: a generator that fills \<^verbatim>\<open>framesRef\<close> with 20 lists of
  points, a \<^verbatim>\<open>requestAnimationFrame\<close> loop (\<^verbatim>\<open>render\<close>) that picks one of them from the
  timestamp, fires the heartbeat sound and ages the floating texts, and the sound itself.

  Numbers. A JavaScript \<^verbatim>\<open>number\<close> is an IEEE double. A finite double is the real number
  it stands for, of type \<^typ>\<open>real\<close>. The arithmetic of the playback loop on the timestamp
  decides what a tick does (which frame it draws, whether the beat fires), so it is
  modelled as the code computes it: every operation rounds its exact result to the nearest
  double (\<open>fl\<close> below). The generator and the decay of the texts compute coordinates,
  opacities and scales, and there the model idealises: it computes with the exact reals,
  without rounding. Point coordinates can leave the finite numbers (\<^verbatim>\<open>Math.log(0)\<close>, a
  division by \<^verbatim>\<open>Math.pow(0, e)\<close>), so they have the type \<open>number\<close> below, with the two
  infinities and NaN as values of their own.

  Randomness. One run of the generator is given the sequence of results of its calls of
  \<^verbatim>\<open>Math.random()\<close>, in call order, as a function \<open>rs\<close> from the call's position to the
  draw; the position of the next call is threaded through the loops.
\<close>

subsection \<open>Double arithmetic\<close>

text \<open>
  Rounding to the nearest integer, a tie to the even one.
\<close>

definition round_even :: "real \<Rightarrow> int" where
  "round_even r =
     (let f = \<lfloor>r\<rfloor>; d = r - of_int f
      in if d < 1 / 2 then f else if 1 / 2 < d then f + 1 else if even f then f else f + 1)"

text \<open>
  The doubles around \<open>x\<close> are the multiples of \<open>2 ^ e\<close>, where \<open>e\<close> is the binary exponent of
  \<open>x\<close> less the 52 fraction bits, and at least \<open>- 1074\<close> (the subnormal doubles). \<open>fl x\<close> is
  the double nearest to \<open>x\<close>, as every arithmetic operation of IEEE 754 in its default
  rounding returns it for the exact result \<open>x\<close>. Overflow to an infinity (beyond about
  \<open>1.8e308\<close>) is not modelled; no number of the playback loop comes near it.
\<close>

definition ulp_exponent :: "real \<Rightarrow> int" where
  "ulp_exponent x = max (\<lfloor>log 2 \<bar>x\<bar>\<rfloor> - 52) (- 1074)"

definition fl :: "real \<Rightarrow> real" where
  "fl x =
     (if x = 0 then 0
      else of_int (round_even (x / 2 powi ulp_exponent x)) * 2 powi ulp_exponent x)"

subsection \<open>Constants\<close>

definition IMAGE_ENLARGE :: real where
  "IMAGE_ENLARGE = 11"

definition GENERATE_FRAMES :: nat where
  "GENERATE_FRAMES = 20"

definition BPM :: real where
  "BPM = 70"

definition BEAT_INTERVAL :: real where
  "BEAT_INTERVAL = fl (60 / BPM)"

subsection \<open>Numbers that may be infinite or NaN\<close>

datatype number = Fin real | PosInf | NegInf | NaN

text \<open>
  The arithmetic of doubles on these values, exact on the finite ones. A zero divisor is
  taken as \<open>+0\<close>: the only divisors of the program that can be zero are results of
  \<^verbatim>\<open>Math.pow(distSq, e)\<close> for a sum of squares \<open>distSq\<close>, which is never \<open>-0\<close>.
\<close>

instantiation number :: "{uminus, plus, minus, times, inverse}"
begin

fun uminus_number :: "number \<Rightarrow> number" where
  "uminus_number (Fin a) = Fin (- a)"
| "uminus_number PosInf = NegInf"
| "uminus_number NegInf = PosInf"
| "uminus_number NaN = NaN"

fun plus_number :: "number \<Rightarrow> number \<Rightarrow> number" where
  "plus_number (Fin a) (Fin b) = Fin (a + b)"
| "plus_number NaN b = NaN"
| "plus_number a NaN = NaN"
| "plus_number PosInf NegInf = NaN"
| "plus_number NegInf PosInf = NaN"
| "plus_number PosInf b = PosInf"
| "plus_number a PosInf = PosInf"
| "plus_number NegInf b = NegInf"
| "plus_number a NegInf = NegInf"

definition minus_number :: "number \<Rightarrow> number \<Rightarrow> number" where
  "minus_number a b = a + (- b)"

fun times_number :: "number \<Rightarrow> number \<Rightarrow> number" where
  "times_number (Fin a) (Fin b) = Fin (a * b)"
| "times_number NaN b = NaN"
| "times_number a NaN = NaN"
| "times_number PosInf (Fin b) = (if b = 0 then NaN else if 0 < b then PosInf else NegInf)"
| "times_number NegInf (Fin b) = (if b = 0 then NaN else if 0 < b then NegInf else PosInf)"
| "times_number (Fin a) PosInf = (if a = 0 then NaN else if 0 < a then PosInf else NegInf)"
| "times_number (Fin a) NegInf = (if a = 0 then NaN else if 0 < a then NegInf else PosInf)"
| "times_number PosInf PosInf = PosInf"
| "times_number PosInf NegInf = NegInf"
| "times_number NegInf PosInf = NegInf"
| "times_number NegInf NegInf = PosInf"

fun divide_number :: "number \<Rightarrow> number \<Rightarrow> number" where
  "divide_number (Fin a) (Fin b) =
     (if b = 0 then (if a = 0 then NaN else if 0 < a then PosInf else NegInf) else Fin (a / b))"
| "divide_number NaN b = NaN"
| "divide_number a NaN = NaN"
| "divide_number (Fin a) PosInf = Fin 0"
| "divide_number (Fin a) NegInf = Fin 0"
| "divide_number PosInf (Fin b) = (if 0 \<le> b then PosInf else NegInf)"
| "divide_number NegInf (Fin b) = (if 0 \<le> b then NegInf else PosInf)"
| "divide_number PosInf PosInf = NaN"
| "divide_number PosInf NegInf = NaN"
| "divide_number NegInf PosInf = NaN"
| "divide_number NegInf NegInf = NaN"

definition inverse_number :: "number \<Rightarrow> number" where
  "inverse_number a = divide (Fin 1) a"

instance ..

end

text \<open>
  \<^verbatim>\<open>Math.pow(b, e)\<close> for a finite exponent \<open>e\<close> (the program's exponents are the literals
  2, 3, 0.6 and 0.42), and \<^verbatim>\<open>Math.log\<close>.
\<close>

definition js_pow :: "number \<Rightarrow> real \<Rightarrow> number" where
  "js_pow b e =
     (if e = 0 then Fin 1
      else case b of
        NaN \<Rightarrow> NaN
      | PosInf \<Rightarrow> (if 0 < e then PosInf else Fin 0)
      | NegInf \<Rightarrow>
          (if 0 < e then (if of_int \<lfloor>e\<rfloor> = e \<and> odd \<lfloor>e\<rfloor> then NegInf else PosInf) else Fin 0)
      | Fin a \<Rightarrow>
          (if a = 0 then (if 0 < e then Fin 0 else PosInf)
           else if 0 < a then Fin (a powr e)
           else if of_int \<lfloor>e\<rfloor> = e then Fin (a powi \<lfloor>e\<rfloor>)
           else NaN))"

definition js_log :: "number \<Rightarrow> number" where
  "js_log a =
     (case a of
        NaN \<Rightarrow> NaN
      | PosInf \<Rightarrow> PosInf
      | NegInf \<Rightarrow> NaN
      | Fin r \<Rightarrow> (if r = 0 then NegInf else if 0 < r then Fin (ln r) else NaN))"

text \<open>
  The remainder \<^verbatim>\<open>a % b\<close> of finite numbers, with the sign of the dividend. The remainder
  of two doubles is a double, so \<^verbatim>\<open>%\<close> does not round. Both uses in the program have a
  non-zero constant divisor (\<^verbatim>\<open>BEAT_INTERVAL\<close>, \<^verbatim>\<open>GENERATE_FRAMES\<close>); for a zero divisor
  JavaScript gives NaN, which this function does not model.
\<close>

definition js_trunc :: "real \<Rightarrow> int" where
  "js_trunc r = (if 0 \<le> r then \<lfloor>r\<rfloor> else \<lceil>r\<rceil>)"

definition js_rem :: "real \<Rightarrow> real \<Rightarrow> real" where
  "js_rem a b = a - b * of_int (js_trunc (a / b))"

text \<open>
  An array read \<^verbatim>\<open>xs[i]\<close> with an integral number \<open>i\<close>: \<open>None\<close> is \<^verbatim>\<open>undefined\<close>.
\<close>

definition index :: "'a list \<Rightarrow> int \<Rightarrow> 'a option" where
  "index xs i = (if 0 \<le> i \<and> nat i < length xs then Some (xs ! nat i) else None)"

subsection \<open>Points and the curve\<close>

text \<open>The interface \<^verbatim>\<open>Point\<close>; the fields carry the prefix \<open>pt_\<close>.\<close>

record Point =
  pt_x :: number
  pt_y :: number
  pt_size :: number

text \<open>
  The closures of the generating effect take \<open>centerX = width / 2\<close> and
  \<open>centerY = height / 2\<close> as their first two arguments here. Where the source calls
  \<^verbatim>\<open>Math.random()\<close> inside a closure, the model passes the draws in, in call order.
\<close>

definition heartFunction :: "real \<Rightarrow> real \<Rightarrow> real \<Rightarrow> number \<times> number" where
  "heartFunction centerX centerY t =
     (let x = 17 * sin t ^ 3;
          y = - (16 * cos t - 5 * cos (2 * t) - 3 * cos (3 * t))
      in (Fin (x * IMAGE_ENLARGE + centerX), Fin (y * IMAGE_ENLARGE + centerY)))"

definition scatterInside ::
  "real \<Rightarrow> real \<Rightarrow> number \<Rightarrow> number \<Rightarrow> real \<Rightarrow> real \<Rightarrow> real \<Rightarrow> number \<times> number" where
  "scatterInside centerX centerY x y beta u1 u2 =
     (let ratioX = Fin (- beta) * js_log (Fin u1);
          ratioY = Fin (- beta) * js_log (Fin u2)
      in (x - ratioX * (x - Fin centerX), y - ratioY * (y - Fin centerY)))"

definition shrink ::
  "real \<Rightarrow> real \<Rightarrow> number \<Rightarrow> number \<Rightarrow> number \<Rightarrow> number \<times> number" where
  "shrink centerX centerY x y ratio =
     (let distSq = js_pow (x - Fin centerX) 2 + js_pow (y - Fin centerY) 2;
          force = Fin (- 1) / js_pow distSq 0.6
      in (x - ratio * force * (x - Fin centerX), y - ratio * force * (y - Fin centerY)))"

definition curve :: "real \<Rightarrow> real" where
  "curve p = 2 * (2 * sin (4 * p)) / (2 * pi)"

definition calcPosition ::
  "real \<Rightarrow> real \<Rightarrow> number \<Rightarrow> number \<Rightarrow> number \<Rightarrow> real \<Rightarrow> real \<Rightarrow> number \<times> number" where
  "calcPosition centerX centerY x y ratio u1 u2 =
     (let distSq = js_pow (x - Fin centerX) 2 + js_pow (y - Fin centerY) 2;
          force = Fin 1 / js_pow distSq 0.42;
          dx = ratio * force * (x - Fin centerX) + Fin (u1 * 2 - 1);
          dy = ratio * force * (y - Fin centerY) + Fin (u2 * 2 - 1)
      in (x - dx, y - dy))"

subsection \<open>Loops that draw random numbers\<close>

text \<open>
  \<open>repeat n body k\<close> is \<^verbatim>\<open>for (let i = 0; i < n; i++) out.push(body())\<close> and
  \<open>for_each xs body k\<close> is \<^verbatim>\<open>xs.forEach(x => out.push(body(x)))\<close>, where the next call of
  \<^verbatim>\<open>Math.random()\<close> is call number \<open>k\<close>; both return \<open>out\<close> and the number of the next call
  after the loop. (No loop body of the generator reads its counter \<open>i\<close>.)
\<close>

primrec repeat :: "nat \<Rightarrow> (nat \<Rightarrow> 'a \<times> nat) \<Rightarrow> nat \<Rightarrow> 'a list \<times> nat" where
  "repeat 0 body k = ([], k)"
| "repeat (Suc n) body k =
     (let (a, k1) = body k; (as, k2) = repeat n body k1 in (a # as, k2))"

primrec for_each :: "'b list \<Rightarrow> ('b \<Rightarrow> nat \<Rightarrow> 'a \<times> nat) \<Rightarrow> nat \<Rightarrow> 'a list \<times> nat" where
  "for_each [] body k = ([], k)"
| "for_each (x # xs) body k =
     (let (a, k1) = body x k; (as, k2) = for_each xs body k1 in (a # as, k2))"

subsection \<open>The three point sets\<close>

definition basePoints :: "(nat \<Rightarrow> real) \<Rightarrow> real \<Rightarrow> real \<Rightarrow> nat \<Rightarrow> (number \<times> number) list \<times> nat" where
  "basePoints rs centerX centerY k =
     repeat 1000 (\<lambda>k. (heartFunction centerX centerY (rs k * 2 * pi), Suc k)) k"

text \<open>Three scattered copies of each base point, pushed in order.\<close>

definition edgeDiffusionPoints ::
  "(nat \<Rightarrow> real) \<Rightarrow> real \<Rightarrow> real \<Rightarrow> (number \<times> number) list \<Rightarrow> nat \<Rightarrow> (number \<times> number) list \<times> nat" where
  "edgeDiffusionPoints rs centerX centerY base k =
     (let (groups, k1) =
        for_each base
          (\<lambda>(bx, by) k.
             repeat 3 (\<lambda>k. (scatterInside centerX centerY bx by 0.05 (rs k) (rs (Suc k)), k + 2)) k)
          k
      in (concat groups, k1))"

text \<open>
  \<^verbatim>\<open>const [bx, by] = basePoints[Math.floor(Math.random() * basePoints.length)]\<close> throws a
  TypeError when the read is \<^verbatim>\<open>undefined\<close>; the loop then returns \<open>None\<close>.
\<close>

primrec centerDiffusionPoints ::
  "(nat \<Rightarrow> real) \<Rightarrow> real \<Rightarrow> real \<Rightarrow> (number \<times> number) list \<Rightarrow> nat \<Rightarrow> nat
     \<Rightarrow> ((number \<times> number) list \<times> nat) option" where
  "centerDiffusionPoints rs centerX centerY base 0 k = Some ([], k)"
| "centerDiffusionPoints rs centerX centerY base (Suc n) k =
     (case index base \<lfloor>rs k * real (length base)\<rfloor> of
        None \<Rightarrow> None
      | Some (bx, by) \<Rightarrow>
          (case centerDiffusionPoints rs centerX centerY base n (k + 3) of
             None \<Rightarrow> None
           | Some (cs, k1) \<Rightarrow>
               Some (scatterInside centerX centerY bx by 0.27 (rs (k + 1)) (rs (k + 2)) # cs, k1)))"

subsection \<open>The frames\<close>

definition frame_phase :: "nat \<Rightarrow> real" where
  "frame_phase frame = (real frame / real GENERATE_FRAMES) * pi"

definition haloNumber :: "nat \<Rightarrow> int" where
  "haloNumber frame = \<lfloor>1500 + 2000 * \<bar>curve (frame_phase frame)\<bar> ^ 2\<rfloor>"

text \<open>One pass of the halo loop: four draws, for the parameter, the two jitters and the size.\<close>

definition haloPoint :: "(nat \<Rightarrow> real) \<Rightarrow> real \<Rightarrow> real \<Rightarrow> real \<Rightarrow> nat \<Rightarrow> Point \<times> nat" where
  "haloPoint rs centerX centerY haloRadius k =
     (let (hx, hy) = heartFunction centerX centerY (rs k * 2 * pi);
          (hx, hy) = shrink centerX centerY hx hy (Fin haloRadius)
      in (\<lparr>pt_x = hx + Fin (rs (k + 1) * 120 - 60),
           pt_y = hy + Fin (rs (k + 2) * 120 - 60),
           pt_size = (if rs (k + 3) < 0.66 then Fin 1 else Fin 2)\<rparr>, k + 4))"

text \<open>
  The body of the three \<^verbatim>\<open>forEach\<close> loops over the point sets, which differ in the literal
  \<open>n\<close> of \<^verbatim>\<open>Math.floor(Math.random() * n) + 1\<close> only (3 for the base points, 2 for the others).
\<close>

definition projectPoint ::
  "(nat \<Rightarrow> real) \<Rightarrow> real \<Rightarrow> real \<Rightarrow> real \<Rightarrow> real \<Rightarrow> number \<times> number \<Rightarrow> nat \<Rightarrow> Point \<times> nat" where
  "projectPoint rs centerX centerY ratio n b k =
     (let (px, py) = calcPosition centerX centerY (fst b) (snd b) (Fin ratio) (rs k) (rs (k + 1))
      in (\<lparr>pt_x = px, pt_y = py, pt_size = Fin (of_int \<lfloor>rs (k + 2) * n\<rfloor> + 1)\<rparr>, k + 3))"

definition generateFrame ::
  "(nat \<Rightarrow> real) \<Rightarrow> real \<Rightarrow> real \<Rightarrow> (number \<times> number) list \<Rightarrow> (number \<times> number) list
     \<Rightarrow> (number \<times> number) list \<Rightarrow> nat \<Rightarrow> nat \<Rightarrow> Point list \<times> nat" where
  "generateFrame rs centerX centerY base edge center frame k =
     (let p = frame_phase frame;
          ratio = 15 * curve p;
          haloRadius = 4 + 6 * (1 + curve p);
          (halo, k1) = repeat (nat (haloNumber frame)) (haloPoint rs centerX centerY haloRadius) k;
          (bs, k2) = for_each base (projectPoint rs centerX centerY ratio 3) k1;
          (es, k3) = for_each edge (projectPoint rs centerX centerY ratio 2) k2;
          (cs, k4) = for_each center (projectPoint rs centerX centerY ratio 2) k3
      in (halo @ bs @ es @ cs, k4))"

text \<open>\<^verbatim>\<open>for (let frame = 0; frame < GENERATE_FRAMES; frame++)\<close>, from \<open>frame\<close> on.\<close>

function framesFrom ::
  "(nat \<Rightarrow> real) \<Rightarrow> real \<Rightarrow> real \<Rightarrow> (number \<times> number) list \<Rightarrow> (number \<times> number) list
     \<Rightarrow> (number \<times> number) list \<Rightarrow> nat \<Rightarrow> nat \<Rightarrow> Point list list \<times> nat" where
  "framesFrom rs centerX centerY base edge center frame k =
     (if frame < GENERATE_FRAMES then
        (let (framePoints, k1) = generateFrame rs centerX centerY base edge center frame k;
             (rest, k2) = framesFrom rs centerX centerY base edge center (Suc frame) k1
         in (framePoints # rest, k2))
      else ([], k))"
  by pat_completeness auto
termination
  by (relation "measure (\<lambda>(rs, centerX, centerY, base, edge, center, frame, k). GENERATE_FRAMES - frame)")
    auto

declare framesFrom.simps [simp del]

text \<open>
  One run of the generating effect for \<open>dimensions = {width, height}\<close>: the value assigned to
  \<^verbatim>\<open>framesRef.current\<close>, or \<open>None\<close> when the effect throws.
\<close>

definition generatedFrames :: "(nat \<Rightarrow> real) \<Rightarrow> real \<Rightarrow> real \<Rightarrow> Point list list option" where
  "generatedFrames rs width height =
     (let centerX = width / 2;
          centerY = height / 2;
          (base, k1) = basePoints rs centerX centerY 0;
          (edge, k2) = edgeDiffusionPoints rs centerX centerY base k1
      in case centerDiffusionPoints rs centerX centerY base 5000 k2 of
           None \<Rightarrow> None
         | Some (center, k3) \<Rightarrow> Some (fst (framesFrom rs centerX centerY base edge center 0 k3)))"

subsection \<open>Floating texts\<close>

text \<open>
  The interface \<^verbatim>\<open>FloatingText\<close>. The fields carry the prefix \<open>ft_\<close> because \<open>id\<close>, \<open>x\<close>
  and \<open>y\<close> are taken.
\<close>

record FloatingText =
  ft_id :: real
  ft_x :: real
  ft_y :: real
  ft_opacity :: real
  ft_scale :: real

text \<open>The object \<^verbatim>\<open>newText\<close> of \<^verbatim>\<open>handleCanvasClick\<close>, from \<^verbatim>\<open>Date.now()\<close> and the click position.\<close>

definition newText :: "real \<Rightarrow> real \<Rightarrow> real \<Rightarrow> FloatingText" where
  "newText now clientX clientY =
     \<lparr>ft_id = now, ft_x = clientX, ft_y = clientY, ft_opacity = 1, ft_scale = 1\<rparr>"

text \<open>
  The updater handed to \<^verbatim>\<open>setFloatingTexts\<close> in \<^verbatim>\<open>render\<close>:
  \<^verbatim>\<open>prev.map(t => ({...t, y: t.y - 1, opacity: t.opacity - 0.01, scale: t.scale + 0.005}))
       .filter(t => t.opacity > 0)\<close>.
\<close>

definition decay :: "FloatingText \<Rightarrow> FloatingText" where
  "decay t = t\<lparr>ft_y := ft_y t - 1, ft_opacity := ft_opacity t - 0.01, ft_scale := ft_scale t + 0.005\<rparr>"

definition updateFloatingTexts :: "FloatingText list \<Rightarrow> FloatingText list" where
  "updateFloatingTexts prev = filter (\<lambda>t. ft_opacity t > 0) (map decay prev)"

subsection \<open>The heartbeat sound\<close>

text \<open>
  What the program uses of the Web Audio interface: a context has a state and a clock, and
  holds the oscillators that were created, connected through a gain to its destination and
  started. A parameter (frequency, gain) is the list of the events scheduled on it.
\<close>

datatype AudioContextState = Suspended | Running | Closed

datatype param_event =
  SetValueAtTime real real
| LinearRampToValueAtTime real real
| ExponentialRampToValueAtTime real real

record oscillator =
  osc_type :: string
  osc_frequency :: "param_event list"
  osc_gain :: "param_event list"
  osc_start :: real
  osc_stop :: real

record AudioContext =
  ctx_state :: AudioContextState
  currentTime :: real
  scheduled :: "oscillator list"

text \<open>
  \<^verbatim>\<open>playHeartbeatSound\<close>, on the value of \<^verbatim>\<open>audioContextRef.current\<close> (\<open>None\<close> is
  \<^verbatim>\<open>null\<close>).
\<close>

definition playHeartbeatSound :: "AudioContext option \<Rightarrow> AudioContext option" where
  "playHeartbeatSound current =
     (case current of
        None \<Rightarrow> None
      | Some ctx \<Rightarrow>
          (if ctx_state ctx \<noteq> Running then Some ctx
           else
             let now = currentTime ctx;
                 osc1 = \<lparr>osc_type = ''sine'',
                         osc_frequency = [SetValueAtTime 60 now, ExponentialRampToValueAtTime 40 (now + 0.1)],
                         osc_gain = [SetValueAtTime 0 now, LinearRampToValueAtTime 0.5 (now + 0.02),
                                     ExponentialRampToValueAtTime 0.001 (now + 0.15)],
                         osc_start = now, osc_stop = now + 0.15\<rparr>;
                 delay = 0.15;
                 osc2 = \<lparr>osc_type = ''sine'',
                         osc_frequency = [SetValueAtTime 70 (now + delay),
                                          ExponentialRampToValueAtTime 50 (now + delay + 0.08)],
                         osc_gain = [SetValueAtTime 0 (now + delay),
                                     LinearRampToValueAtTime 0.4 (now + delay + 0.02),
                                     ExponentialRampToValueAtTime 0.001 (now + delay + 0.1)],
                         osc_start = now + delay, osc_stop = now + delay + 0.1\<rparr>
             in Some (ctx\<lparr>scheduled := scheduled ctx @ [osc1, osc2]\<rparr>)))"

subsection \<open>The playback loop\<close>

text \<open>
  The refs and the state that \<^verbatim>\<open>render\<close> reads and writes: \<^verbatim>\<open>framesRef.current\<close>,
  \<^verbatim>\<open>lastBeatTimeRef.current\<close>, \<^verbatim>\<open>audioContextRef.current\<close> and \<^verbatim>\<open>floatingTexts\<close>.
\<close>

record app_state =
  frames :: "Point list list"
  lastBeatTime :: real
  audioContext :: "AudioContext option"
  floatingTexts :: "FloatingText list"

text \<open>
  What a tick does to the canvas. \<open>Idle\<close>: no frames yet, nothing drawn, the next tick
  requested. \<open>Drawn i ps\<close>: the canvas cleared and the points \<open>ps\<close> of entry \<open>i\<close> of the
  frame array drawn, the next tick requested. \<open>Threw i\<close>: entry \<open>i\<close> of the frame array is
  \<^verbatim>\<open>undefined\<close>, so \<^verbatim>\<open>currentFramePoints.forEach\<close> throws a TypeError after the canvas was
  cleared; the texts are not updated and no further tick is requested.
\<close>

datatype drawing = Idle | Drawn int "Point list" | Threw int

text \<open>
  One call \<^verbatim>\<open>render(time)\<close> of the loop that the rendering effect starts once the canvas
  is there: the state after it, whether it called \<^verbatim>\<open>playHeartbeatSound\<close>, and what it drew.
  The timestamp \<open>time\<close> is a double; the two divisions, the subtraction and the
  multiplication round. The remainder \<^verbatim>\<open>frameIndex % GENERATE_FRAMES\<close> of two integral
  numbers is integral; the floor around it only gives it the type of an index. The updater
  of the texts is applied to the list at once, where React applies it before it renders
  the component again.
\<close>

definition render :: "app_state \<Rightarrow> real \<Rightarrow> app_state \<times> bool \<times> drawing" where
  "render s time =
     (if length (frames s) = 0 then (s, False, Idle)
      else
        let seconds = fl (time / 1000);
            beatProgress = fl (js_rem seconds BEAT_INTERVAL / BEAT_INTERVAL);
            beat = (fl (seconds - lastBeatTime s) \<ge> BEAT_INTERVAL);
            s1 = (if beat
                  then s\<lparr>audioContext := playHeartbeatSound (audioContext s), lastBeatTime := seconds\<rparr>
                  else s);
            frameIndex = \<lfloor>fl (beatProgress * real GENERATE_FRAMES)\<rfloor>;
            i = \<lfloor>js_rem (of_int frameIndex) (real GENERATE_FRAMES)\<rfloor>
        in case index (frames s1) i of
             None \<Rightarrow> (s1, beat, Threw i)
           | Some currentFramePoints \<Rightarrow>
               (s1\<lparr>floatingTexts := updateFloatingTexts (floatingTexts s1)\<rparr>, beat,
                Drawn i currentFramePoints))"

text \<open>
  The loop over the timestamps of successive ticks: the log of each tick (its timestamp,
  whether it called \<^verbatim>\<open>playHeartbeatSound\<close>, what it drew). A tick that throws requests no
  successor, so the loop ends there.
\<close>

fun run :: "app_state \<Rightarrow> real list \<Rightarrow> (real \<times> bool \<times> drawing) list" where
  "run s [] = []"
| "run s (time # ticks) =
     (case render s time of
        (s1, beat, Threw i) \<Rightarrow> [(time, beat, Threw i)]
      | (s1, beat, d) \<Rightarrow> (time, beat, d) # run s1 ticks)"

text \<open>The values of \<open>seconds\<close> at which the ticks of a run called \<^verbatim>\<open>playHeartbeatSound\<close>.\<close>

definition beat_times :: "app_state \<Rightarrow> real list \<Rightarrow> real list" where
  "beat_times s ticks =
     map (\<lambda>(time, beat, d). fl (time / 1000)) (filter (\<lambda>(time, beat, d). beat) (run s ticks))"

text \<open>The state after the run of the loop over the timestamps of successive ticks.\<close>

fun run_state :: "app_state \<Rightarrow> real list \<Rightarrow> app_state" where
  "run_state s [] = s"
| "run_state s (time # ticks) =
     (case render s time of
        (s1, beat, Threw i) \<Rightarrow> s1
      | (s1, beat, d) \<Rightarrow> run_state s1 ticks)"

text \<open>The index of the frame array that a tick selected, if it selected one.\<close>

fun selected :: "drawing \<Rightarrow> int option" where
  "selected Idle = None"
| "selected (Drawn i ps) = Some i"
| "selected (Threw i) = Some i"

text \<open>
  The states the component can be in: it starts with no frames, no audio context and no
  texts; the generating effect assigns its frames to \<^verbatim>\<open>framesRef.current\<close> (or throws and
  assigns nothing); a tick runs \<^verbatim>\<open>render\<close>; a click runs \<^verbatim>\<open>initAudio\<close> and adds a text; the
  browser advances the clock of the audio context and changes its state.
  The draws of \<^verbatim>\<open>Math.random()\<close> lie in \<open>[0, 1)\<close>.
\<close>

definition initial :: app_state where
  "initial = \<lparr>frames = [], lastBeatTime = 0, audioContext = None, floatingTexts = []\<rparr>"

definition regenerate :: "app_state \<Rightarrow> (nat \<Rightarrow> real) \<Rightarrow> real \<Rightarrow> real \<Rightarrow> app_state" where
  "regenerate s rs width height =
     (case generatedFrames rs width height of
        None \<Rightarrow> s
      | Some generated \<Rightarrow> s\<lparr>frames := generated\<rparr>)"

text \<open>
  \<^verbatim>\<open>initAudio\<close>: a new context on the first click, in the state the browser gives it (a
  parameter here). On a suspended context it calls \<^verbatim>\<open>resume()\<close>, which only asks the browser
  to restart it: the state changes later, by the browser (rule \<open>browser\<close> below).
\<close>

definition initAudio :: "AudioContext option \<Rightarrow> AudioContext \<Rightarrow> AudioContext option" where
  "initAudio current fresh =
     (case current of
        None \<Rightarrow> Some fresh
      | Some ctx \<Rightarrow> Some ctx)"

definition handleCanvasClick :: "app_state \<Rightarrow> AudioContext \<Rightarrow> real \<Rightarrow> real \<Rightarrow> real \<Rightarrow> app_state" where
  "handleCanvasClick s fresh now clientX clientY =
     s\<lparr>audioContext := initAudio (audioContext s) fresh,
       floatingTexts := floatingTexts s @ [newText now clientX clientY]\<rparr>"

inductive reachable :: "app_state \<Rightarrow> bool" where
  start: "reachable initial"
| generated: "reachable s \<Longrightarrow> \<forall>k. 0 \<le> rs k \<and> rs k < 1 \<Longrightarrow> reachable (regenerate s rs width height)"
| tick: "reachable s \<Longrightarrow> reachable (fst (render s time))"
| click: "reachable s \<Longrightarrow> reachable (handleCanvasClick s fresh now clientX clientY)"
| browser: "reachable s \<Longrightarrow> audioContext s = Some ctx \<Longrightarrow>
    reachable (s\<lparr>audioContext := Some (ctx\<lparr>ctx_state := st, currentTime := now\<rparr>)\<rparr>)"

section \<open>Rounding to the nearest double\<close>

lemma round_even_nonneg: "0 \<le> r \<Longrightarrow> 0 \<le> round_even r"
  by (auto simp: round_even_def Let_def)

lemma round_even_nonpos: "r \<le> 0 \<Longrightarrow> round_even r \<le> 0"
proof -
  assume r: "r \<le> 0"
  show ?thesis
  proof (cases "r = 0")
    case True
    then show ?thesis by (simp add: round_even_def)
  next
    case False
    with r have "r < 0" by simp
    then have "\<lfloor>r\<rfloor> \<le> - 1" by (simp add: floor_le_iff)
    then show ?thesis
      by (auto simp: round_even_def Let_def)
  qed
qed

text \<open>Rounding does not pass an integer, nor the even integer of a tie.\<close>

lemma round_even_le: "r \<le> of_int n \<Longrightarrow> round_even r \<le> n"
proof -
  assume le: "r \<le> of_int n"
  show ?thesis
  proof (cases "r = of_int n")
    case True
    then show ?thesis by (simp add: round_even_def)
  next
    case False
    with le have "r < of_int n" by simp
    then have "\<lfloor>r\<rfloor> < n" by (simp add: floor_less_iff)
    then show ?thesis
      by (auto simp: round_even_def Let_def)
  qed
qed

lemma round_even_le_tie: "r \<le> of_int n + 1 / 2 \<Longrightarrow> even n \<Longrightarrow> round_even r \<le> n"
proof -
  assume le: "r \<le> of_int n + 1 / 2" and n: "even n"
  have f: "\<lfloor>r\<rfloor> \<le> n"
  proof -
    from le have "r < of_int (n + 1)" by simp
    then have "\<lfloor>r\<rfloor> < n + 1" by (simp only: floor_less_iff)
    then show ?thesis by simp
  qed
  show ?thesis
  proof (cases "\<lfloor>r\<rfloor> = n")
    case True
    with le have "r - of_int \<lfloor>r\<rfloor> \<le> 1 / 2" by simp
    with True n show ?thesis
      by (auto simp: round_even_def Let_def)
  next
    case False
    with f have "\<lfloor>r\<rfloor> < n" by simp
    then show ?thesis
      by (auto simp: round_even_def Let_def)
  qed
qed

lemma fl_nonneg: "0 \<le> x \<Longrightarrow> 0 \<le> fl x"
  by (simp add: fl_def round_even_nonneg)

lemma fl_nonpos: "x \<le> 0 \<Longrightarrow> fl x \<le> 0"
proof -
  assume x: "x \<le> 0"
  then have "x / 2 powi ulp_exponent x \<le> 0"
    by (simp add: divide_nonpos_pos)
  then have "round_even (x / 2 powi ulp_exponent x) \<le> 0"
    by (rule round_even_nonpos)
  then have "of_int (round_even (x / 2 powi ulp_exponent x)) * (2::real) powi ulp_exponent x \<le> 0"
    by (simp add: mult_le_0_iff)
  then show ?thesis by (simp add: fl_def)
qed

lemma two_powr_int: "2 powr real_of_int k = (2::real) powi k"
  by (rule powr_real_of_int') simp_all

text \<open>The exponent of the doubles around \<open>x\<close>, from the binade of \<open>x\<close>.\<close>

lemma ulp_exponent_eq:
  assumes lo: "2 ^ 52 \<le> \<bar>x\<bar> / 2 powi e" and hi: "\<bar>x\<bar> / 2 powi e < 2 ^ 53" and e: "- 1074 \<le> e"
  shows "ulp_exponent x = e"
proof -
  have p: "(0::real) < 2 powi e" by simp
  have "(0::real) < 2 ^ 52" by simp
  also note lo
  finally have "0 < \<bar>x\<bar> / 2 powi e" .
  with p have x: "0 < \<bar>x\<bar>"
    by (simp add: zero_less_divide_iff)
  have e52: "(2::real) powi (e + 52) = 2 ^ 52 * 2 powi e"
    by (simp add: power_int_add)
  have e53: "(2::real) powi (e + 53) = 2 ^ 53 * 2 powi e"
    by (simp add: power_int_add)
  from lo p have "2 ^ 52 * 2 powi e \<le> \<bar>x\<bar>"
    by (simp add: pos_le_divide_eq)
  then have l: "2 powr real_of_int (e + 52) \<le> \<bar>x\<bar>"
    by (simp only: two_powr_int e52)
  from hi p have "\<bar>x\<bar> < 2 ^ 53 * 2 powi e"
    by (simp add: pos_divide_less_eq)
  then have "\<bar>x\<bar> < 2 powr real_of_int (e + 53)"
    by (simp only: two_powr_int e53)
  moreover have "real_of_int (e + 53) = real_of_int (e + 52) + 1"
    by simp
  ultimately have h: "\<bar>x\<bar> < 2 powr (real_of_int (e + 52) + 1)"
    by (simp only:)
  from x l h have "\<lfloor>log 2 \<bar>x\<bar>\<rfloor> = e + 52"
    by (subst floor_log_eq_powr_iff) simp_all
  with e show ?thesis
    by (simp add: ulp_exponent_def)
qed

lemma fl_eval:
  assumes "2 ^ 52 \<le> \<bar>x\<bar> / 2 powi e" and "\<bar>x\<bar> / 2 powi e < 2 ^ 53" and "- 1074 \<le> e"
  shows "fl x = of_int (round_even (x / 2 powi e)) * 2 powi e"
proof -
  from assms have "ulp_exponent x = e" by (rule ulp_exponent_eq)
  moreover from assms(1) have "x \<noteq> 0" by auto
  ultimately show ?thesis by (simp add: fl_def)
qed

text \<open>Below \<open>1 / 2\<close> the doubles do not pass \<open>1 / 2\<close>.\<close>

lemma ulp_exponent_small:
  assumes "0 < x" "x < 1 / 2"
  shows "ulp_exponent x \<le> - 54"
proof -
  have "log 2 x < - 1"
    using assms by (simp add: log_less_iff powr_neg_one)
  then have "\<lfloor>log 2 x\<rfloor> < - 1"
    by (simp add: floor_less_iff)
  then have f: "\<lfloor>log 2 x\<rfloor> \<le> - 2"
    by linarith
  from assms have a: "\<bar>x\<bar> = x"
    by simp
  show ?thesis
    unfolding ulp_exponent_def a using f by linarith
qed

lemma fl_small:
  assumes x: "0 < x" "x < 1 / 2"
  shows "fl x \<le> 1 / 2"
proof -
  define e where "e = ulp_exponent x"
  define n where "n = nat (- 1 - e)"
  from ulp_exponent_small [OF x] have e: "e \<le> - 54" by (simp add: e_def)
  then have n: "int n = - 1 - e" by (simp add: n_def)
  have p: "(0::real) < 2 powi e" by simp
  have half: "(1 / 2 :: real) = 2 ^ n * 2 powi e"
  proof -
    have "(2::real) ^ n * 2 powi e = 2 powi int n * 2 powi e"
      by simp
    also have "\<dots> = 2 powi (int n + e)"
      by (simp add: power_int_add)
    also have "int n + e = - 1" using n by simp
    finally show ?thesis by simp
  qed
  from x have "x \<le> 1 / 2" by simp
  then have "x / 2 powi e \<le> (1 / 2) / 2 powi e"
    by (rule divide_right_mono) simp
  also have "(1 / 2 :: real) / 2 powi e = of_int (2 ^ n)"
    by (simp add: half)
  finally have "round_even (x / 2 powi e) \<le> 2 ^ n"
    by (rule round_even_le)
  then have "real_of_int (round_even (x / 2 powi e)) \<le> real_of_int (2 ^ n)"
    by (simp only: of_int_le_iff)
  then have "real_of_int (round_even (x / 2 powi e)) \<le> 2 ^ n"
    by simp
  then have "real_of_int (round_even (x / 2 powi e)) * 2 powi e \<le> 2 ^ n * 2 powi e"
    by (rule mult_right_mono) simp
  with x show ?thesis
    by (simp add: fl_def e_def [symmetric] half [symmetric])
qed

section \<open>The beat interval as a double\<close>

lemma BEAT_INTERVAL_value: "BEAT_INTERVAL = 7720456504063707 / 2 ^ 53"
proof -
  have "fl (60 / 70) = of_int (round_even ((60 / 70) / 2 powi (- 53))) * 2 powi (- 53)"
    by (rule fl_eval) (simp_all add: power_int_minus)
  also have "round_even ((60 / 70) / 2 powi (- 53)) = 7720456504063707"
    by (simp add: round_even_def Let_def power_int_minus)
  finally show ?thesis
    by (simp add: BEAT_INTERVAL_def BPM_def power_int_minus)
qed

lemma BEAT_INTERVAL_fl: "BEAT_INTERVAL = fl (60 / 70)"
  by (simp add: BEAT_INTERVAL_def BPM_def)

lemma BEAT_INTERVAL_pos: "0 < BEAT_INTERVAL"
  by (simp add: BEAT_INTERVAL_value)

lemma BEAT_INTERVAL_below: "BEAT_INTERVAL < 60 / 70"
  by (simp add: BEAT_INTERVAL_value)

text \<open>
  A number whose rounded value reaches the beat interval lies above the midpoint between
  the beat interval and the double before it.
\<close>

lemma fl_reaches_beat:
  assumes "BEAT_INTERVAL \<le> fl x"
  shows "BEAT_INTERVAL - 1 / 2 ^ 54 < x"
proof (rule ccontr)
  assume "\<not> BEAT_INTERVAL - 1 / 2 ^ 54 < x"
  then have m: "x \<le> 7720456504063707 / 2 ^ 53 - 1 / 2 ^ 54"
    by (simp add: BEAT_INTERVAL_value)
  have "fl x < BEAT_INTERVAL"
  proof -
    consider "x \<le> 0" | "0 < x" "x < 1 / 2" | "1 / 2 \<le> x" by linarith
    then show ?thesis
    proof cases
      case 1
      then have "fl x \<le> 0" by (rule fl_nonpos)
      with BEAT_INTERVAL_pos show ?thesis by simp
    next
      case 2
      then have "fl x \<le> 1 / 2" by (rule fl_small)
      then show ?thesis by (simp add: BEAT_INTERVAL_value)
    next
      case 3
      with m have ax: "\<bar>x\<bar> = x" by simp
      have "fl x = of_int (round_even (x / 2 powi (- 53))) * 2 powi (- 53)"
        using 3 m by (intro fl_eval) (simp_all add: ax power_int_minus)
      moreover have "round_even (x / 2 powi (- 53)) \<le> 7720456504063706"
        using m by (intro round_even_le_tie) (simp_all add: power_int_minus)
      ultimately have "fl x \<le> 7720456504063706 * 2 powi (- 53)"
        by (simp add: power_int_minus)
      then show ?thesis
        by (simp add: BEAT_INTERVAL_value power_int_minus)
    qed
  qed
  with assms show False by simp
qed

section \<open>The generator: frames, point counts and sizes\<close>

lemma repeat_length: "length (fst (repeat n body k)) = n"
  by (induction n arbitrary: k) (simp_all add: split_beta Let_def)

lemma for_each_length: "length (fst (for_each xs body k)) = length xs"
  by (induction xs arbitrary: k) (simp_all add: split_beta Let_def)

lemma repeat_all: "(\<And>j. P (fst (body j))) \<Longrightarrow> a \<in> set (fst (repeat n body k)) \<Longrightarrow> P a"
  by (induction n arbitrary: k) (auto simp: split_beta Let_def)

lemma for_each_all:
  "(\<And>x j. P (fst (body x j))) \<Longrightarrow> a \<in> set (fst (for_each xs body k)) \<Longrightarrow> P a"
  by (induction xs arbitrary: k) (auto simp: split_beta Let_def)

lemma basePoints_length: "length (fst (basePoints rs centerX centerY k)) = 1000"
  by (simp add: basePoints_def repeat_length)

lemma concat_groups_length:
  "(\<And>x j. length (fst (body x j)) = m) \<Longrightarrow> length (concat (fst (for_each xs body k))) = m * length xs"
  by (induction xs arbitrary: k) (simp_all add: split_beta Let_def)

lemma edgeDiffusionPoints_length:
  "length (fst (edgeDiffusionPoints rs centerX centerY base k)) = 3 * length base"
proof -
  let ?body = "\<lambda>(bx, by) k.
     repeat 3 (\<lambda>k. (scatterInside centerX centerY bx by 0.05 (rs k) (rs (Suc k)), k + 2)) k"
  have "\<And>x j. length (fst (?body x j)) = 3"
    by (simp add: split_beta repeat_length)
  then have "length (concat (fst (for_each base ?body k))) = 3 * length base"
    by (rule concat_groups_length)
  then show ?thesis
    by (simp add: edgeDiffusionPoints_def split_beta Let_def)
qed

lemma index_random:
  assumes "0 \<le> u" "u < 1" "xs \<noteq> []"
  shows "\<exists>x. index xs \<lfloor>u * real (length xs)\<rfloor> = Some x"
proof -
  let ?n = "length xs"
  from assms have n: "0 < real ?n" by simp
  from assms n have "0 \<le> u * real ?n" by simp
  then have lo: "0 \<le> \<lfloor>u * real ?n\<rfloor>" by simp
  from assms n have "u * real ?n < real ?n" by simp
  then have "\<lfloor>u * real ?n\<rfloor> < int ?n"
    by (simp add: floor_less_iff)
  then have "nat \<lfloor>u * real ?n\<rfloor> < ?n" using lo by linarith
  with lo show ?thesis by (simp add: index_def)
qed

lemma centerDiffusionPoints_length:
  assumes rs: "\<forall>k. 0 \<le> rs k \<and> rs k < 1" and base: "base \<noteq> []"
  shows "\<exists>cs k1. centerDiffusionPoints rs centerX centerY base n k = Some (cs, k1) \<and> length cs = n"
proof (induction n arbitrary: k)
  case 0
  show ?case by simp
next
  case (Suc n)
  from rs base obtain b where b: "index base \<lfloor>rs k * real (length base)\<rfloor> = Some b"
    using index_random [of "rs k" base] by blast
  from Suc.IH [of "k + 3"] obtain cs k1
    where cs: "centerDiffusionPoints rs centerX centerY base n (k + 3) = Some (cs, k1)" "length cs = n"
    by blast
  show ?case
    using b cs by (simp add: split_beta)
qed

lemma generateFrame_length:
  "length (fst (generateFrame rs centerX centerY base edge center frame k)) =
     nat (haloNumber frame) + length base + length edge + length center"
  by (simp add: generateFrame_def Let_def split_beta repeat_length for_each_length)

lemma framesFrom_length:
  "length (fst (framesFrom rs centerX centerY base edge center frame k)) = GENERATE_FRAMES - frame"
proof (induction rs centerX centerY base edge center frame k rule: framesFrom.induct)
  case (1 rs centerX centerY base edge center frame k)
  show ?case
  proof (cases "frame < GENERATE_FRAMES")
    case True
    obtain framePoints k1 where g: "generateFrame rs centerX centerY base edge center frame k = (framePoints, k1)"
      by (cases "generateFrame rs centerX centerY base edge center frame k") auto
    have "length (fst (framesFrom rs centerX centerY base edge center (Suc frame) k1)) = GENERATE_FRAMES - Suc frame"
      using "1.IH" [OF True g [symmetric] refl] .
    then show ?thesis
      using True g by (subst framesFrom.simps) (simp add: split_beta)
  next
    case False
    then show ?thesis
      by (subst framesFrom.simps) simp
  qed
qed

lemma framesFrom_nth:
  "j < GENERATE_FRAMES - frame \<Longrightarrow>
     \<exists>k1. fst (framesFrom rs centerX centerY base edge center frame k) ! j =
        fst (generateFrame rs centerX centerY base edge center (frame + j) k1)"
proof (induction rs centerX centerY base edge center frame k arbitrary: j rule: framesFrom.induct)
  case (1 rs centerX centerY base edge center frame k)
  from "1.prems" have lt: "frame < GENERATE_FRAMES" by simp
  obtain framePoints k1 where g: "generateFrame rs centerX centerY base edge center frame k = (framePoints, k1)"
    by (cases "generateFrame rs centerX centerY base edge center frame k") auto
  have unfold: "fst (framesFrom rs centerX centerY base edge center frame k) =
      framePoints # fst (framesFrom rs centerX centerY base edge center (Suc frame) k1)"
    using lt g by (subst framesFrom.simps) (simp add: split_beta)
  show ?case
  proof (cases j)
    case 0
    then show ?thesis
      using unfold g by (metis add.right_neutral fst_conv nth_Cons_0)
  next
    case (Suc i)
    with "1.prems" have "i < GENERATE_FRAMES - Suc frame" by simp
    from "1.IH" [OF lt g [symmetric] refl this] obtain k2 where
      "fst (framesFrom rs centerX centerY base edge center (Suc frame) k1) ! i =
        fst (generateFrame rs centerX centerY base edge center (Suc frame + i) k2)" ..
    then show ?thesis
      using unfold Suc by auto
  qed
qed

lemma haloPoint_size: "pt_size (fst (haloPoint rs centerX centerY haloRadius k)) \<in> {Fin 1, Fin 2}"
  by (simp add: haloPoint_def split_beta Let_def)

lemma floor_random:
  assumes "0 \<le> u" "u < 1" "0 < n"
  shows "0 \<le> \<lfloor>u * real n\<rfloor> \<and> \<lfloor>u * real n\<rfloor> < int n"
proof -
  from assms have "0 \<le> u * real n" by simp
  then have lo: "0 \<le> \<lfloor>u * real n\<rfloor>" by simp
  from assms have "u * real n < real n" by simp
  then have "\<lfloor>u * real n\<rfloor> < int n"
    by (simp add: floor_less_iff)
  with lo show ?thesis by simp
qed

lemma projectPoint_size:
  assumes rs: "\<forall>k. 0 \<le> rs k \<and> rs k < 1" and m: "m = 2 \<or> m = 3"
  shows "pt_size (fst (projectPoint rs centerX centerY ratio (real m) b k)) \<in> {Fin 1, Fin 2, Fin 3}"
proof -
  define f where "f = \<lfloor>rs (k + 2) * real m\<rfloor>"
  from rs have u: "0 \<le> rs (k + 2)" "rs (k + 2) < 1" by simp_all
  from m have "0 < m" by auto
  from floor_random [OF u this] have "0 \<le> f" "f < int m"
    by (simp_all add: f_def)
  with m have "f = 0 \<or> f = 1 \<or> f = 2" by auto
  moreover have "pt_size (fst (projectPoint rs centerX centerY ratio (real m) b k)) = Fin (of_int f + 1)"
    by (simp add: projectPoint_def split_beta f_def)
  ultimately show ?thesis by auto
qed

lemma generateFrame_sizes:
  assumes rs: "\<forall>k. 0 \<le> rs k \<and> rs k < 1"
    and p: "p \<in> set (fst (generateFrame rs centerX centerY base edge center frame k))"
  shows "pt_size p \<in> {Fin 1, Fin 2, Fin 3}"
proof -
  let ?ok = "\<lambda>p. pt_size p \<in> {Fin 1, Fin 2, Fin 3}"
  let ?ratio = "15 * curve (frame_phase frame)"
  have halo: "\<And>j. ?ok (fst (haloPoint rs centerX centerY (4 + 6 * (1 + curve (frame_phase frame))) j))"
    using haloPoint_size by (metis insert_iff)
  have p3: "\<And>x j. ?ok (fst (projectPoint rs centerX centerY ?ratio 3 x j))"
    using projectPoint_size [OF rs, of 3] by simp
  have p2: "\<And>x j. ?ok (fst (projectPoint rs centerX centerY ?ratio 2 x j))"
    using projectPoint_size [OF rs, of 2] by simp
  note h = repeat_all [where P = ?ok
      and body = "haloPoint rs centerX centerY (4 + 6 * (1 + curve (frame_phase frame)))", OF halo]
  note b3 = for_each_all [where P = ?ok and body = "projectPoint rs centerX centerY ?ratio 3", OF p3]
  note b2 = for_each_all [where P = ?ok and body = "projectPoint rs centerX centerY ?ratio 2", OF p2]
  from p show ?thesis
    unfolding generateFrame_def Let_def split_beta fst_conv set_append Un_iff
    using h b3 b2 by blast
qed

lemma generatedFrames_Some:
  assumes rs: "\<forall>k. 0 \<le> rs k \<and> rs k < 1"
  shows "\<exists>base edge center k3. length base = 1000 \<and> length edge = 3000 \<and> length center = 5000 \<and>
     generatedFrames rs width height =
       Some (fst (framesFrom rs (width / 2) (height / 2) base edge center 0 k3))"
proof -
  let ?cx = "width / 2" and ?cy = "height / 2"
  obtain base k1 where b: "basePoints rs ?cx ?cy 0 = (base, k1)"
    by (cases "basePoints rs ?cx ?cy 0") auto
  obtain edge k2 where e: "edgeDiffusionPoints rs ?cx ?cy base k1 = (edge, k2)"
    by (cases "edgeDiffusionPoints rs ?cx ?cy base k1") auto
  have lb: "length base = 1000"
    using basePoints_length [of rs ?cx ?cy 0] b by simp
  have le: "length edge = 3000"
    using edgeDiffusionPoints_length [of rs ?cx ?cy base k1] e lb by simp
  from lb have "base \<noteq> []" by auto
  from centerDiffusionPoints_length [OF rs this, of ?cx ?cy 5000 k2] obtain center k3
    where c: "centerDiffusionPoints rs ?cx ?cy base 5000 k2 = Some (center, k3)" "length center = 5000"
    by blast
  have "generatedFrames rs width height = Some (fst (framesFrom rs ?cx ?cy base edge center 0 k3))"
    using b e c by (simp add: generatedFrames_def Let_def)
  with lb le c show ?thesis by blast
qed

lemma haloNumber_ge: "1500 \<le> haloNumber frame"
  by (simp add: haloNumber_def le_floor_iff)

lemma generatedFrames_frames:
  assumes rs: "\<forall>k. 0 \<le> rs k \<and> rs k < 1"
  shows "\<exists>fs. generatedFrames rs width height = Some fs \<and> length fs = 20 \<and>
     (\<forall>frame < 20. int (length (fs ! frame)) = haloNumber frame + 1000 + 3000 + 5000 \<and>
        (\<forall>p \<in> set (fs ! frame). pt_size p \<in> {Fin 1, Fin 2, Fin 3}))"
proof -
  let ?cx = "width / 2" and ?cy = "height / 2"
  from generatedFrames_Some [OF rs, of width height] obtain base edge center k3
    where l: "length base = 1000" "length edge = 3000" "length center = 5000"
      and g: "generatedFrames rs width height = Some (fst (framesFrom rs ?cx ?cy base edge center 0 k3))"
    by blast
  let ?fs = "fst (framesFrom rs ?cx ?cy base edge center 0 k3)"
  have len: "length ?fs = 20"
    by (simp only: framesFrom_length) (simp add: GENERATE_FRAMES_def)
  have each: "int (length (?fs ! frame)) = haloNumber frame + 1000 + 3000 + 5000 \<and>
        (\<forall>p \<in> set (?fs ! frame). pt_size p \<in> {Fin 1, Fin 2, Fin 3})" if "frame < 20" for frame
  proof -
    from that have "frame < GENERATE_FRAMES - 0" by (simp add: GENERATE_FRAMES_def)
    from framesFrom_nth [OF this, of rs ?cx ?cy base edge center k3] obtain k1
      where n: "?fs ! frame = fst (generateFrame rs ?cx ?cy base edge center frame k1)"
      by auto
    have "length (?fs ! frame) = nat (haloNumber frame) + 1000 + 3000 + 5000"
      by (simp only: n generateFrame_length l)
    moreover have "0 \<le> haloNumber frame"
      using haloNumber_ge [of frame] by simp
    ultimately have "int (length (?fs ! frame)) = haloNumber frame + 1000 + 3000 + 5000"
      by simp
    moreover have "\<forall>p \<in> set (?fs ! frame). pt_size p \<in> {Fin 1, Fin 2, Fin 3}"
      using generateFrame_sizes [OF rs] by (simp only: n) blast
    ultimately show ?thesis by simp
  qed
  from g len each show ?thesis by blast
qed

text \<open>
  Claim C1. Whatever the width and the height, a run of the generator whose draws lie in
  \<open>[0, 1)\<close> assigns \<open>GENERATE_FRAMES = 20\<close> frames; none of them is empty, and the size of
  every point of every frame is 1, 2 or 3.
\<close>

theorem generator_frames:
  "\<forall>k. 0 \<le> rs k \<and> rs k < 1 \<Longrightarrow>
     \<exists>fs. generatedFrames rs width height = Some fs \<and> length fs = GENERATE_FRAMES \<and> GENERATE_FRAMES = 20 \<and>
       (\<forall>f \<in> set fs. f \<noteq> [] \<and> (\<forall>p \<in> set f. pt_size p \<in> {Fin 1, Fin 2, Fin 3}))"
proof -
  assume rs: "\<forall>k. 0 \<le> rs k \<and> rs k < 1"
  from generatedFrames_frames [OF rs, of width height] obtain fs
    where g: "generatedFrames rs width height = Some fs" and len: "length fs = 20"
      and each: "\<forall>frame < 20. int (length (fs ! frame)) = haloNumber frame + 1000 + 3000 + 5000 \<and>
        (\<forall>p \<in> set (fs ! frame). pt_size p \<in> {Fin 1, Fin 2, Fin 3})"
    by blast
  have "f \<noteq> [] \<and> (\<forall>p \<in> set f. pt_size p \<in> {Fin 1, Fin 2, Fin 3})" if "f \<in> set fs" for f
  proof -
    from that len obtain frame where fr: "frame < 20" "f = fs ! frame"
      by (metis in_set_conv_nth)
    with each have c: "int (length f) = haloNumber frame + 1000 + 3000 + 5000"
      and sz: "\<forall>p \<in> set f. pt_size p \<in> {Fin 1, Fin 2, Fin 3}"
      by simp_all
    from c haloNumber_ge [of frame] have "0 < length f" by linarith
    with sz show ?thesis by simp
  qed
  with g len show ?thesis
    by (simp add: GENERATE_FRAMES_def)
qed

theorem generator_frames_witness:
  "\<exists>fs. generatedFrames (\<lambda>k. 1 / 2) 840 680 = Some fs \<and> length fs = 20 \<and>
       (\<forall>f \<in> set fs. f \<noteq> [] \<and> (\<forall>p \<in> set f. pt_size p \<in> {Fin 1, Fin 2, Fin 3}))"
  using generator_frames [of "\<lambda>k. 1 / 2" 840 680] by (simp add: GENERATE_FRAMES_def)

text \<open>
  Claim C2. In a run of the generator whose draws lie in \<open>[0, 1)\<close>, frame number \<open>frame\<close>
  (below 20) has \<open>floor(1500 + 2000 |curve(p)|\<^sup>2) + 1000 + 3000 + 5000\<close> points, where
  \<open>p = (frame / 20) \<pi>\<close>: a number in which neither the draws nor the dimensions occur.
\<close>

theorem frame_point_count:
  "\<forall>k. 0 \<le> rs k \<and> rs k < 1 \<Longrightarrow> frame < 20 \<Longrightarrow>
     \<exists>fs. generatedFrames rs width height = Some fs \<and>
       int (length (fs ! frame)) =
         \<lfloor>1500 + 2000 * \<bar>curve (real frame / 20 * pi)\<bar> ^ 2\<rfloor> + 1000 + 3000 + 5000"
proof -
  assume rs: "\<forall>k. 0 \<le> rs k \<and> rs k < 1" and fr: "frame < 20"
  from generatedFrames_frames [OF rs, of width height] obtain fs
    where g: "generatedFrames rs width height = Some fs"
      and each: "\<forall>frame < 20. int (length (fs ! frame)) = haloNumber frame + 1000 + 3000 + 5000 \<and>
        (\<forall>p \<in> set (fs ! frame). pt_size p \<in> {Fin 1, Fin 2, Fin 3})"
    by blast
  from each fr have "int (length (fs ! frame)) = haloNumber frame + 1000 + 3000 + 5000"
    by simp
  moreover have "haloNumber frame = \<lfloor>1500 + 2000 * \<bar>curve (real frame / 20 * pi)\<bar> ^ 2\<rfloor>"
    by (simp add: haloNumber_def frame_phase_def GENERATE_FRAMES_def)
  ultimately show ?thesis
    using g by simp
qed

theorem frame_point_count_witness:
  "\<exists>fs. generatedFrames (\<lambda>k. 1 / 2) 840 680 = Some fs \<and> int (length (fs ! 0)) = 10500"
  using frame_point_count [of "\<lambda>k. 1 / 2" 0 840 680] by (simp add: curve_def)

section \<open>The remainder of non-negative numbers\<close>

lemma js_rem_bounds:
  assumes "0 \<le> a" "0 < b"
  shows "0 \<le> js_rem a b \<and> js_rem a b < b"
proof -
  let ?q = "\<lfloor>a / b\<rfloor>"
  from assms have "0 \<le> a / b" by simp
  then have t: "js_trunc (a / b) = ?q" by (simp add: js_trunc_def)
  have "of_int ?q \<le> a / b" by simp
  with assms have lo: "b * of_int ?q \<le> a"
    by (simp add: le_divide_eq mult.commute)
  have "a / b < of_int ?q + 1" by linarith
  with assms have "a / b * b < (of_int ?q + 1) * b"
    by (intro mult_strict_right_mono)
  with assms have "a < b * (of_int ?q + 1)"
    by (simp add: mult.commute)
  then have hi: "a - b * of_int ?q < b"
    by (simp add: algebra_simps)
  from lo hi show ?thesis
    by (simp add: js_rem_def t)
qed

lemma js_rem_small: "0 \<le> a \<Longrightarrow> a < b \<Longrightarrow> js_rem a b = a"
proof -
  assume a: "0 \<le> a" "a < b"
  then have "0 \<le> a / b" "a / b < 1" by simp_all
  then have "js_trunc (a / b) = 0"
    by (simp add: js_trunc_def floor_eq_iff)
  then show ?thesis by (simp add: js_rem_def)
qed

lemma js_rem_floor: "0 \<le> a \<Longrightarrow> 0 < b \<Longrightarrow> js_rem a b = a - b * of_int \<lfloor>a / b\<rfloor>"
  by (simp add: js_rem_def js_trunc_def)

lemma js_rem_int: "0 \<le> n \<Longrightarrow> \<lfloor>js_rem (of_int n) 20\<rfloor> = n mod 20"
proof -
  assume n: "0 \<le> n"
  have "\<lfloor>real_of_int n / real_of_int 20\<rfloor> = n div 20"
    by (rule floor_divide_of_int_eq)
  then have f: "\<lfloor>real_of_int n / 20\<rfloor> = n div 20" by simp
  from n have "js_rem (of_int n) 20 = of_int n - 20 * of_int \<lfloor>real_of_int n / 20\<rfloor>"
    by (intro js_rem_floor) simp_all
  also have "\<dots> = of_int (n - 20 * (n div 20))"
    by (simp add: f)
  also have "n - 20 * (n div 20) = n mod 20"
    by (simp add: minus_mult_div_eq_mod)
  finally show ?thesis by simp
qed

section \<open>The frame index of a tick\<close>

lemma render_selected:
  "frames s \<noteq> [] \<Longrightarrow>
     selected (snd (snd (render s time))) =
       Some \<lfloor>js_rem (of_int \<lfloor>fl (fl (js_rem (fl (time / 1000)) BEAT_INTERVAL / BEAT_INTERVAL) * 20)\<rfloor>) 20\<rfloor>"
  by (simp add: render_def Let_def GENERATE_FRAMES_def split: option.splits)

lemma frameIndex_nonneg:
  assumes "0 \<le> time"
  shows "0 \<le> \<lfloor>fl (fl (js_rem (fl (time / 1000)) BEAT_INTERVAL / BEAT_INTERVAL) * 20)\<rfloor>"
proof -
  define seconds where "seconds = fl (time / 1000)"
  define bp where "bp = fl (js_rem seconds BEAT_INTERVAL / BEAT_INTERVAL)"
  from assms have "0 \<le> time / 1000" by simp
  then have s: "0 \<le> seconds"
    unfolding seconds_def by (rule fl_nonneg)
  from js_rem_bounds [OF s BEAT_INTERVAL_pos] BEAT_INTERVAL_pos
  have "0 \<le> js_rem seconds BEAT_INTERVAL / BEAT_INTERVAL"
    by simp
  then have "0 \<le> bp"
    unfolding bp_def by (rule fl_nonneg)
  then have "0 \<le> bp * 20" by simp
  then have "0 \<le> fl (bp * 20)" by (rule fl_nonneg)
  then show ?thesis
    unfolding bp_def seconds_def by simp
qed

lemma render_selected_mod:
  assumes "frames s \<noteq> []" "0 \<le> time"
  shows "selected (snd (snd (render s time))) =
     Some (\<lfloor>fl (fl ((fl (time / 1000) - BEAT_INTERVAL * of_int \<lfloor>fl (time / 1000) / BEAT_INTERVAL\<rfloor>)
                       / BEAT_INTERVAL) * 20)\<rfloor> mod 20)"
proof -
  define seconds where "seconds = fl (time / 1000)"
  from assms(2) have "0 \<le> time / 1000" by simp
  then have s: "0 \<le> seconds"
    unfolding seconds_def by (rule fl_nonneg)
  have r: "js_rem seconds BEAT_INTERVAL = seconds - BEAT_INTERVAL * of_int \<lfloor>seconds / BEAT_INTERVAL\<rfloor>"
    by (rule js_rem_floor [OF s BEAT_INTERVAL_pos])
  have "selected (snd (snd (render s time))) =
      Some \<lfloor>js_rem (of_int \<lfloor>fl (fl (js_rem seconds BEAT_INTERVAL / BEAT_INTERVAL) * 20)\<rfloor>) 20\<rfloor>"
    unfolding seconds_def by (rule render_selected [OF assms(1)])
  also have "\<dots> = Some (\<lfloor>fl (fl (js_rem seconds BEAT_INTERVAL / BEAT_INTERVAL) * 20)\<rfloor> mod 20)"
    using frameIndex_nonneg [OF assms(2)] by (simp only: js_rem_int seconds_def)
  finally show ?thesis
    unfolding r unfolding seconds_def .
qed

text \<open>The tick at 8700 ms, operation by operation.\<close>

lemma seconds_8700: "fl (8700 / 1000) = 4897664594765414 / 2 ^ 49"
proof -
  have "fl (8700 / 1000) = of_int (round_even ((8700 / 1000) / 2 powi (- 49))) * 2 powi (- 49)"
    by (rule fl_eval) (simp_all add: power_int_minus)
  also have "round_even ((8700 / 1000) / 2 powi (- 49)) = 4897664594765414"
    by (simp add: round_even_def Let_def power_int_minus)
  finally show ?thesis
    by (simp add: power_int_minus)
qed

lemma remainder_8700: "js_rem (4897664594765414 / 2 ^ 49) (7720456504063707 / 2 ^ 53) = 579034237804777 / 2 ^ 52"
  by (simp add: js_rem_def js_trunc_def)

lemma progress_8700: "fl ((579034237804777 / 2 ^ 52) / (7720456504063707 / 2 ^ 53)) = 5404319552844586 / 2 ^ 55"
proof -
  have "fl ((579034237804777 / 2 ^ 52) / (7720456504063707 / 2 ^ 53)) = of_int (round_even (((579034237804777 / 2 ^ 52) / (7720456504063707 / 2 ^ 53)) / 2 powi (- 55))) * 2 powi (- 55)"
    by (rule fl_eval) (simp_all add: power_int_minus)
  also have "round_even (((579034237804777 / 2 ^ 52) / (7720456504063707 / 2 ^ 53)) / 2 powi (- 55)) = 5404319552844586"
    by (simp add: round_even_def Let_def power_int_minus)
  finally show ?thesis
    by (simp add: power_int_minus)
qed

lemma scaled_8700: "fl (5404319552844586 / 2 ^ 55 * 20) = 6755399441055732 / 2 ^ 51"
proof -
  have "fl (5404319552844586 / 2 ^ 55 * 20) = of_int (round_even ((5404319552844586 / 2 ^ 55 * 20) / 2 powi (- 51))) * 2 powi (- 51)"
    by (rule fl_eval) (simp_all add: power_int_minus)
  also have "round_even ((5404319552844586 / 2 ^ 55 * 20) / 2 powi (- 51)) = 6755399441055732"
    by (simp add: round_even_def Let_def power_int_minus)
  finally show ?thesis
    by (simp add: power_int_minus)
qed

lemma frameIndex_8700:
  "\<lfloor>js_rem (of_int \<lfloor>fl (fl (js_rem (fl (8700 / 1000)) BEAT_INTERVAL / BEAT_INTERVAL) * 20)\<rfloor>) 20\<rfloor> = 2"
proof -
  have "\<lfloor>6755399441055732 / 2 ^ 51 :: real\<rfloor> = 2"
    by (simp add: floor_eq_iff)
  then show ?thesis
    unfolding BEAT_INTERVAL_value seconds_8700 remainder_8700 progress_8700 scaled_8700
    by (simp add: js_rem_def js_trunc_def)
qed

text \<open>
  Claim C3, amended. With frames to draw, the index of the frame array that a tick selects
  is a function of the timestamp alone: two states (different last-beat times, audio
  contexts, texts, frames) select the same index at the same timestamp. It is
  \<open>floor(((time / 1000) % beatInterval) / beatInterval * 20) % 20\<close> as the code computes
  it: in double arithmetic, where the results of the two divisions and of the
  multiplication are rounded to the nearest double (\<open>%\<close> is exact), and with
  \<open>beatInterval\<close> the double nearest to \<open>60 / 70\<close>, which is \<open>7720456504063707 / 2 ^ 53\<close>
  and less than \<open>60 / 70\<close>. For a timestamp that is not negative, \<open>%\<close> is the modulo,
  \<open>a - b floor(a / b)\<close>.
\<close>

theorem frame_index_from_time:
  "frames s \<noteq> [] \<Longrightarrow> frames s' \<noteq> [] \<Longrightarrow>
     selected (snd (snd (render s time))) =
       Some \<lfloor>js_rem (of_int \<lfloor>fl (fl (js_rem (fl (time / 1000)) (fl (60 / 70)) / fl (60 / 70)) * 20)\<rfloor>) 20\<rfloor> \<and>
     selected (snd (snd (render s' time))) = selected (snd (snd (render s time))) \<and>
     BEAT_INTERVAL = fl (60 / 70) \<and> fl (60 / 70) = 7720456504063707 / 2 ^ 53 \<and>
     fl (60 / 70) < 60 / 70 \<and>
     (0 \<le> time \<longrightarrow>
        selected (snd (snd (render s time))) =
          Some (\<lfloor>fl (fl ((fl (time / 1000) - fl (60 / 70) * of_int \<lfloor>fl (time / 1000) / fl (60 / 70)\<rfloor>)
                            / fl (60 / 70)) * 20)\<rfloor> mod 20))"
proof -
  assume s: "frames s \<noteq> []" and s': "frames s' \<noteq> []"
  note a = render_selected [OF s, of time]
  note b = render_selected [OF s', of time]
  from a b have same: "selected (snd (snd (render s' time))) = selected (snd (snd (render s time)))"
    by (simp only:)
  have v: "fl (60 / 70) = 7720456504063707 / 2 ^ 53"
    using BEAT_INTERVAL_value by (simp only: BEAT_INTERVAL_fl)
  have l: "fl (60 / 70) < 60 / 70"
    using BEAT_INTERVAL_below by (simp only: BEAT_INTERVAL_fl)
  from a same BEAT_INTERVAL_fl v l render_selected_mod [OF s, of time] show ?thesis
    unfolding BEAT_INTERVAL_fl by blast
qed

theorem frame_index_from_time_witness:
  "frames (initial\<lparr>frames := replicate 20 []\<rparr>) \<noteq> [] \<and>
   frames \<lparr>frames = [[], []], lastBeatTime = 1 / 2, audioContext = None,
           floatingTexts = [newText 7 100 200]\<rparr> \<noteq> [] \<and>
   selected (snd (snd (render (initial\<lparr>frames := replicate 20 []\<rparr>) 8700))) = Some 2 \<and>
   selected (snd (snd (render \<lparr>frames = [[], []], lastBeatTime = 1 / 2, audioContext = None,
           floatingTexts = [newText 7 100 200]\<rparr> 8700))) = Some 2"
  using frame_index_from_time
    [of "initial\<lparr>frames := replicate 20 []\<rparr>"
        "\<lparr>frames = [[], []], lastBeatTime = 1 / 2, audioContext = None,
           floatingTexts = [newText 7 100 200]\<rparr>" 8700]
    frameIndex_8700
  by (simp add: initial_def BEAT_INTERVAL_fl)

text \<open>
  The claim as stated, with \<open>beatInterval = 60 / 70\<close> exactly, fails at the timestamp
  8700 ms: there \<open>(time / 1000) / (60 / 70)\<close> is \<open>10.15\<close>, so the stated expression is
  \<open>floor(0.15 * 20) = 3\<close>, while the code computes \<open>beatProgress = 0.14999999999999974\<close> and
  draws entry 2 of the frame array.
\<close>

theorem frame_index_counterexample:
  "selected (snd (snd (render (initial\<lparr>frames := replicate 20 []\<rparr>) 8700))) = Some 2 \<and>
   \<lfloor>(8700 / 1000 - 60 / 70 * of_int \<lfloor>8700 / 1000 / (60 / 70) :: real\<rfloor>) / (60 / 70) * 20 :: real\<rfloor> mod 20 = 3"
proof -
  have ne: "frames (initial\<lparr>frames := replicate 20 []\<rparr>) \<noteq> []"
    by simp
  have a: "selected (snd (snd (render (initial\<lparr>frames := replicate 20 []\<rparr>) 8700))) = Some 2"
    using render_selected [OF ne, of 8700] by (simp only: frameIndex_8700)
  have "\<lfloor>8700 / 1000 / (60 / 70) :: real\<rfloor> = 10"
    by (simp add: floor_eq_iff)
  then have "\<lfloor>(8700 / 1000 - 60 / 70 * of_int \<lfloor>8700 / 1000 / (60 / 70) :: real\<rfloor>) / (60 / 70) * 20 :: real\<rfloor> mod 20 = 3"
    by simp
  with a show ?thesis
    by (rule conjI)
qed

section \<open>A tick with frames\<close>

lemma render_index:
  assumes "frames s \<noteq> []"
    and "index (frames s)
       \<lfloor>js_rem (of_int \<lfloor>fl (fl (js_rem (fl (time / 1000)) BEAT_INTERVAL / BEAT_INTERVAL) * real GENERATE_FRAMES)\<rfloor>)
          (real GENERATE_FRAMES)\<rfloor> = Some ps"
  shows "render s time =
     ((if BEAT_INTERVAL \<le> fl (fl (time / 1000) - lastBeatTime s)
       then s\<lparr>audioContext := playHeartbeatSound (audioContext s), lastBeatTime := fl (time / 1000)\<rparr>
       else s)\<lparr>floatingTexts := updateFloatingTexts (floatingTexts s)\<rparr>,
      BEAT_INTERVAL \<le> fl (fl (time / 1000) - lastBeatTime s),
      Drawn \<lfloor>js_rem (of_int \<lfloor>fl (fl (js_rem (fl (time / 1000)) BEAT_INTERVAL / BEAT_INTERVAL) * real GENERATE_FRAMES)\<rfloor>)
          (real GENERATE_FRAMES)\<rfloor> ps)"
  using assms by (auto simp: render_def Let_def)

text \<open>
  With 20 frames and a timestamp that is not negative, the tick draws one of the frames,
  updates the texts, and sets the last-beat time if it fires the beat.
\<close>

lemma render_drawn:
  assumes len: "length (frames s) = 20" and t: "0 \<le> time"
  shows "\<exists>s1 i. render s time =
       (s1, BEAT_INTERVAL \<le> fl (fl (time / 1000) - lastBeatTime s), Drawn i (frames s ! nat i)) \<and>
     0 \<le> i \<and> i \<le> 19 \<and> frames s1 = frames s \<and>
     floatingTexts s1 = updateFloatingTexts (floatingTexts s) \<and>
     lastBeatTime s1 =
       (if BEAT_INTERVAL \<le> fl (fl (time / 1000) - lastBeatTime s) then fl (time / 1000)
        else lastBeatTime s)"
proof -
  define fi where "fi = \<lfloor>fl (fl (js_rem (fl (time / 1000)) BEAT_INTERVAL / BEAT_INTERVAL) * 20)\<rfloor>"
  define i where "i = fi mod 20"
  have fi: "0 \<le> fi"
    unfolding fi_def using t by (rule frameIndex_nonneg)
  have i: "0 \<le> i" "i \<le> 19"
    by (simp_all add: i_def)
  have ji: "\<lfloor>js_rem (of_int fi) 20\<rfloor> = i"
    unfolding i_def using fi by (rule js_rem_int)
  have "index (frames s) i = Some (frames s ! nat i)"
    using i len by (simp add: index_def)
  then have idx: "index (frames s)
       \<lfloor>js_rem (of_int \<lfloor>fl (fl (js_rem (fl (time / 1000)) BEAT_INTERVAL / BEAT_INTERVAL) * real GENERATE_FRAMES)\<rfloor>)
          (real GENERATE_FRAMES)\<rfloor> = Some (frames s ! nat i)"
    using ji by (simp add: GENERATE_FRAMES_def fi_def)
  have g: "\<lfloor>js_rem (of_int \<lfloor>fl (fl (js_rem (fl (time / 1000)) BEAT_INTERVAL / BEAT_INTERVAL) * real GENERATE_FRAMES)\<rfloor>)
          (real GENERATE_FRAMES)\<rfloor> = i"
    using ji by (simp add: GENERATE_FRAMES_def fi_def)
  have ne: "frames s \<noteq> []" using len by auto
  define s1 where "s1 = (if BEAT_INTERVAL \<le> fl (fl (time / 1000) - lastBeatTime s)
       then s\<lparr>audioContext := playHeartbeatSound (audioContext s), lastBeatTime := fl (time / 1000)\<rparr>
       else s)\<lparr>floatingTexts := updateFloatingTexts (floatingTexts s)\<rparr>"
  have r: "render s time =
       (s1, BEAT_INTERVAL \<le> fl (fl (time / 1000) - lastBeatTime s), Drawn i (frames s ! nat i))"
    using render_index [OF ne idx] unfolding g s1_def .
  have "frames s1 = frames s" "floatingTexts s1 = updateFloatingTexts (floatingTexts s)"
    "lastBeatTime s1 =
       (if BEAT_INTERVAL \<le> fl (fl (time / 1000) - lastBeatTime s) then fl (time / 1000)
        else lastBeatTime s)"
    by (simp_all add: s1_def)
  with r i show ?thesis
    by blast
qed

lemma render_frames: "frames (fst (render s time)) = frames s"
  by (simp add: render_def Let_def split: option.splits)

section \<open>The spacing of the beats\<close>

lemma render_beat:
  "render s time = (s1, beat, d) \<Longrightarrow>
     (beat \<longrightarrow> lastBeatTime s1 = fl (time / 1000) \<and>
        BEAT_INTERVAL \<le> fl (fl (time / 1000) - lastBeatTime s)) \<and>
     (\<not> beat \<longrightarrow> lastBeatTime s1 = lastBeatTime s)"
  by (auto simp: render_def Let_def split: option.splits if_splits)

lemma beat_times_Cons:
  "render s time = (s1, beat, d) \<Longrightarrow>
     beat_times s (time # ticks) =
       (if beat then [fl (time / 1000)] else []) @ (case d of Threw i \<Rightarrow> [] | _ \<Rightarrow> beat_times s1 ticks)"
  by (cases d) (simp_all add: beat_times_def)

text \<open>
  The test of the code holds between each beat and the one before it, and between the
  first beat and the last-beat time the run starts with.
\<close>

lemma beat_times_chain:
  "successively (\<lambda>a b. BEAT_INTERVAL \<le> fl (b - a)) (lastBeatTime s # beat_times s ticks)"
proof (induction ticks arbitrary: s)
  case Nil
  show ?case by (simp add: beat_times_def)
next
  case (Cons time ticks)
  let ?P = "\<lambda>a b :: real. BEAT_INTERVAL \<le> fl (b - a)"
  obtain s1 beat d where r: "render s time = (s1, beat, d)"
    by (cases "render s time") auto
  define rest where "rest = (case d of Threw i \<Rightarrow> [] | _ \<Rightarrow> beat_times s1 ticks)"
  have bt: "beat_times s (time # ticks) = (if beat then [fl (time / 1000)] else []) @ rest"
    unfolding rest_def using r by (rule beat_times_Cons)
  have "successively ?P (lastBeatTime s1 # beat_times s1 ticks)"
    by (rule Cons.IH)
  then have rest: "successively ?P (lastBeatTime s1 # rest)"
    by (cases d) (simp_all add: rest_def)
  show ?case
  proof (cases beat)
    case True
    with render_beat [OF r] have l: "lastBeatTime s1 = fl (time / 1000)"
      and g: "?P (lastBeatTime s) (fl (time / 1000))"
      by simp_all
    from rest have "successively ?P (fl (time / 1000) # rest)"
      by (simp only: l)
    with g have "successively ?P (lastBeatTime s # fl (time / 1000) # rest)"
      by (simp only: successively.simps)
    with True show ?thesis
      by (simp only: bt if_True append.simps)
  next
    case False
    with render_beat [OF r] have "lastBeatTime s1 = lastBeatTime s"
      by simp
    with rest have "successively ?P (lastBeatTime s # rest)"
      by simp
    with False show ?thesis
      by (simp only: bt if_False append.simps)
  qed
qed

lemma beat_times_doubles: "\<forall>x \<in> set (beat_times s ticks). \<exists>t. x = fl t"
  by (auto simp: beat_times_def)

text \<open>A double above \<open>1 / 2\<close> is a multiple of \<open>2 ^ - 53\<close>.\<close>

lemma fl_grid:
  assumes "1 / 2 < fl x"
  shows "\<exists>n :: int. fl x = of_int n / 2 ^ 53"
proof -
  have x: "1 / 2 \<le> x"
  proof (rule ccontr)
    assume "\<not> 1 / 2 \<le> x"
    then have lt: "x < 1 / 2" by simp
    show False
    proof (cases "0 < x")
      case True
      from fl_small [OF True lt] assms show False by simp
    next
      case False
      then have "x \<le> 0" by simp
      from fl_nonpos [OF this] assms show False by simp
    qed
  qed
  define e where "e = ulp_exponent x"
  from x have "2 powr (- 1) \<le> \<bar>x\<bar>"
    by (simp add: powr_neg_one)
  then have "- 1 \<le> log 2 \<bar>x\<bar>"
    using x by (simp add: le_log_iff)
  then have "- 1 \<le> \<lfloor>log 2 \<bar>x\<bar>\<rfloor>"
    by (simp add: le_floor_iff)
  then have e: "- 53 \<le> e"
    by (simp add: e_def ulp_exponent_def)
  define k where "k = nat (e + 53)"
  from e have ek: "e = int k - 53"
    by (simp add: k_def)
  have p: "(2::real) powi e = 2 ^ k / 2 ^ 53"
    unfolding ek by (simp add: power_int_diff)
  from x have "x \<noteq> 0" by simp
  then have "fl x = of_int (round_even (x / 2 powi e)) * 2 powi e"
    by (simp add: fl_def e_def)
  also have "\<dots> = of_int (round_even (x / 2 powi e) * 2 ^ k) / 2 ^ 53"
    by (simp add: p)
  finally show ?thesis
    by blast
qed

text \<open>
  Two doubles above \<open>1 / 2\<close> whose rounded difference reaches the beat interval are at
  least the beat interval apart: their difference is a multiple of \<open>2 ^ - 53\<close>, as the beat
  interval is.
\<close>

lemma grid_gap:
  assumes a: "1 / 2 < fl ta" and b: "BEAT_INTERVAL \<le> fl (fl tb - fl ta)"
  shows "BEAT_INTERVAL \<le> fl tb - fl ta"
proof -
  from fl_reaches_beat [OF b] have d: "BEAT_INTERVAL - 1 / 2 ^ 54 < fl tb - fl ta" .
  have "0 < BEAT_INTERVAL - 1 / 2 ^ 54"
    by (simp add: BEAT_INTERVAL_value)
  with d a have "1 / 2 < fl tb" by linarith
  from fl_grid [OF this] obtain m :: int where m: "fl tb = of_int m / 2 ^ 53" by blast
  from fl_grid [OF a] obtain n :: int where n: "fl ta = of_int n / 2 ^ 53" by blast
  have diff: "fl tb - fl ta = of_int (m - n) / 2 ^ 53"
    by (simp add: m n diff_divide_distrib)
  from d have "(2 * 7720456504063707 - 1) / 2 ^ 54 < real_of_int (m - n) / 2 ^ 53"
    unfolding diff BEAT_INTERVAL_value by simp
  then have "(2 * 7720456504063707 - 1) < 2 * real_of_int (m - n)"
    by (simp add: field_simps)
  then have "real_of_int (2 * 7720456504063707 - 1) < real_of_int (2 * (m - n))"
    by simp
  then have "2 * 7720456504063707 - 1 < 2 * (m - n)"
    by (simp only: of_int_less_iff)
  then have "7720456504063707 \<le> m - n"
    by arith
  then have "real_of_int 7720456504063707 \<le> real_of_int (m - n)"
    by (simp only: of_int_le_iff)
  then have "7720456504063707 / 2 ^ 53 \<le> real_of_int (m - n) / 2 ^ 53"
    by (simp add: divide_right_mono)
  then show ?thesis
    unfolding diff BEAT_INTERVAL_value .
qed

lemma spaced_on_grid:
  assumes "0 \<le> l"
    and "successively (\<lambda>a b. BEAT_INTERVAL \<le> fl (b - a)) (l # xs)"
    and "\<forall>x \<in> set xs. \<exists>t. x = fl t"
  shows "successively (\<lambda>a b. BEAT_INTERVAL \<le> b - a) xs"
  using assms
proof (induction xs arbitrary: l)
  case Nil
  show ?case by simp
next
  case (Cons a rest)
  from Cons.prems(2) have la: "BEAT_INTERVAL \<le> fl (a - l)"
    and r: "successively (\<lambda>a b. BEAT_INTERVAL \<le> fl (b - a)) (a # rest)"
    by simp_all
  from fl_reaches_beat [OF la] have "BEAT_INTERVAL - 1 / 2 ^ 54 < a - l" .
  moreover have "1 / 2 < BEAT_INTERVAL - 1 / 2 ^ 54"
    by (simp add: BEAT_INTERVAL_value)
  ultimately have a: "1 / 2 < a"
    using Cons.prems(1) by linarith
  then have a0: "0 \<le> a" by simp
  from Cons.prems(3) have d: "\<forall>x \<in> set rest. \<exists>t. x = fl t" by simp
  have tl: "successively (\<lambda>a b. BEAT_INTERVAL \<le> b - a) rest"
    using a0 r d by (rule Cons.IH)
  show ?case
  proof (cases rest)
    case Nil
    then show ?thesis by simp
  next
    case (Cons b rest')
    from Cons.prems(3) obtain ta where ta: "a = fl ta" by auto
    from d Cons obtain tb where tb: "b = fl tb" by auto
    from r Cons have "BEAT_INTERVAL \<le> fl (b - a)" by simp
    then have "BEAT_INTERVAL \<le> fl (fl tb - fl ta)"
      by (simp only: ta tb)
    with a have "BEAT_INTERVAL \<le> fl tb - fl ta"
      unfolding ta by (intro grid_gap)
    then have "BEAT_INTERVAL \<le> b - a"
      by (simp only: ta tb)
    with tl Cons show ?thesis
      by simp
  qed
qed

text \<open>The beats of a run of two ticks that both fire.\<close>

lemma beat_times_two:
  assumes len: "length (frames s) = 20" and t1: "0 \<le> t1" and t2: "0 \<le> t2"
    and b1: "BEAT_INTERVAL \<le> fl (fl (t1 / 1000) - lastBeatTime s)"
    and b2: "BEAT_INTERVAL \<le> fl (fl (t2 / 1000) - fl (t1 / 1000))"
  shows "beat_times s [t1, t2] = [fl (t1 / 1000), fl (t2 / 1000)]"
proof -
  from render_drawn [OF len t1] b1 obtain s1 i
    where r1: "render s t1 = (s1, True, Drawn i (frames s ! nat i))"
      and f1: "frames s1 = frames s" and l1: "lastBeatTime s1 = fl (t1 / 1000)"
    by auto
  from f1 len have len1: "length (frames s1) = 20" by simp
  from render_drawn [OF len1 t2] b2 l1 obtain s2 j
    where r2: "render s1 t2 = (s2, True, Drawn j (frames s1 ! nat j))"
    by auto
  have "beat_times s [t1, t2] = [fl (t1 / 1000)] @ beat_times s1 [t2]"
    using beat_times_Cons [OF r1, of "[t2]"] by simp
  also have "beat_times s1 [t2] = [fl (t2 / 1000)] @ beat_times s2 []"
    using beat_times_Cons [OF r2, of "[]"] by simp
  also have "beat_times s2 [] = []"
    by (simp add: beat_times_def)
  finally show ?thesis
    by simp
qed

lemma fl_1: "fl 1 = 1"
proof -
  have "fl 1 = of_int (round_even (1 / 2 powi (- 52))) * 2 powi (- 52)"
    by (rule fl_eval) (simp_all add: power_int_minus)
  also have "round_even (1 / 2 powi (- 52)) = 4503599627370496"
    by (simp add: round_even_def Let_def power_int_minus)
  finally show ?thesis
    by (simp add: power_int_minus)
qed

lemma fl_2: "fl 2 = 2"
proof -
  have "fl 2 = of_int (round_even (2 / 2 powi (- 51))) * 2 powi (- 51)"
    by (rule fl_eval) (simp_all add: power_int_minus)
  also have "round_even (2 / 2 powi (- 51)) = 4503599627370496"
    by (simp add: round_even_def Let_def power_int_minus)
  finally show ?thesis
    by (simp add: power_int_minus)
qed

text \<open>
  The ticks at the doubles \<open>857.1428571428571\<close> and \<open>1714.2857142857142\<close>, which are
  \<open>3769754152374857 / 2 ^ 42\<close> and \<open>3769754152374857 / 2 ^ 41\<close>, operation by operation.
\<close>

lemma seconds_first: "fl ((3769754152374857 / 2 ^ 42) / 1000) = 7720456504063707 / 2 ^ 53"
proof -
  have "fl ((3769754152374857 / 2 ^ 42) / 1000) = of_int (round_even (((3769754152374857 / 2 ^ 42) / 1000) / 2 powi (- 53))) * 2 powi (- 53)"
    by (rule fl_eval) (simp_all add: power_int_minus)
  also have "round_even (((3769754152374857 / 2 ^ 42) / 1000) / 2 powi (- 53)) = 7720456504063707"
    by (simp add: round_even_def Let_def power_int_minus)
  finally show ?thesis
    by (simp add: power_int_minus)
qed

lemma seconds_second: "fl ((3769754152374857 / 2 ^ 41) / 1000) = 7720456504063707 / 2 ^ 52"
proof -
  have "fl ((3769754152374857 / 2 ^ 41) / 1000) = of_int (round_even (((3769754152374857 / 2 ^ 41) / 1000) / 2 powi (- 52))) * 2 powi (- 52)"
    by (rule fl_eval) (simp_all add: power_int_minus)
  also have "round_even (((3769754152374857 / 2 ^ 41) / 1000) / 2 powi (- 52)) = 7720456504063707"
    by (simp add: round_even_def Let_def power_int_minus)
  finally show ?thesis
    by (simp add: power_int_minus)
qed

lemma fl_beat_interval: "fl (7720456504063707 / 2 ^ 53) = 7720456504063707 / 2 ^ 53"
proof -
  have "fl (7720456504063707 / 2 ^ 53) = of_int (round_even ((7720456504063707 / 2 ^ 53) / 2 powi (- 53))) * 2 powi (- 53)"
    by (rule fl_eval) (simp_all add: power_int_minus)
  also have "round_even ((7720456504063707 / 2 ^ 53) / 2 powi (- 53)) = 7720456504063707"
    by (simp add: round_even_def Let_def power_int_minus)
  finally show ?thesis
    by (simp add: power_int_minus)
qed

lemma fl_second_gap: "fl (7720456504063707 / 2 ^ 52 - 7720456504063707 / 2 ^ 53) = 7720456504063707 / 2 ^ 53"
proof -
  have "fl (7720456504063707 / 2 ^ 52 - 7720456504063707 / 2 ^ 53) = of_int (round_even ((7720456504063707 / 2 ^ 52 - 7720456504063707 / 2 ^ 53) / 2 powi (- 53))) * 2 powi (- 53)"
    by (rule fl_eval) (simp_all add: power_int_minus)
  also have "round_even ((7720456504063707 / 2 ^ 52 - 7720456504063707 / 2 ^ 53) / 2 powi (- 53)) = 7720456504063707"
    by (simp add: round_even_def Let_def power_int_minus)
  finally show ?thesis
    by (simp add: power_int_minus)
qed

text \<open>
  Claim C4, amended. In the run of the loop over any sequence of tick timestamps
  (increasing or not), between each call of \<^verbatim>\<open>playHeartbeatSound\<close> and the call before it
  the test of the code holds: the difference of their times in seconds, rounded to a
  double, is at least \<open>BEAT_INTERVAL\<close>. From a state whose last-beat time is not negative
  (it is 0 when the component starts) the difference itself is at least \<open>BEAT_INTERVAL\<close>.
  \<open>BEAT_INTERVAL\<close> is the double nearest to \<open>60 / 70\<close>, which is
  \<open>7720456504063707 / 2 ^ 53\<close> and less than \<open>60 / 70\<close>.
\<close>

theorem beats_spaced:
  "successively (\<lambda>a b. BEAT_INTERVAL \<le> fl (b - a)) (beat_times s ticks) \<and>
   (0 \<le> lastBeatTime s \<longrightarrow> successively (\<lambda>a b. BEAT_INTERVAL \<le> b - a) (beat_times s ticks)) \<and>
   BEAT_INTERVAL = 7720456504063707 / 2 ^ 53 \<and> BEAT_INTERVAL < 60 / 70"
proof -
  have chain: "successively (\<lambda>a b. BEAT_INTERVAL \<le> fl (b - a)) (lastBeatTime s # beat_times s ticks)"
    by (rule beat_times_chain)
  then have a: "successively (\<lambda>a b. BEAT_INTERVAL \<le> fl (b - a)) (beat_times s ticks)"
    by (cases "beat_times s ticks") simp_all
  have b: "successively (\<lambda>a b. BEAT_INTERVAL \<le> b - a) (beat_times s ticks)" if "0 \<le> lastBeatTime s"
    using that chain beat_times_doubles by (rule spaced_on_grid)
  from a b BEAT_INTERVAL_value BEAT_INTERVAL_below show ?thesis
    by blast
qed

theorem beats_spaced_witness:
  "beat_times (initial\<lparr>frames := replicate 20 []\<rparr>) [1000, 2000] = [1, 2] \<and>
   successively (\<lambda>a b. BEAT_INTERVAL \<le> b - a)
     (beat_times (initial\<lparr>frames := replicate 20 []\<rparr>) [1000, 2000])"
proof -
  let ?s = "initial\<lparr>frames := replicate 20 []\<rparr>"
  have len: "length (frames ?s) = 20"
    by simp
  have l: "lastBeatTime ?s = 0"
    by (simp add: initial_def)
  have le: "BEAT_INTERVAL \<le> 1"
    by (simp add: BEAT_INTERVAL_value)
  have b1: "BEAT_INTERVAL \<le> fl (fl (1000 / 1000) - lastBeatTime ?s)"
    using le by (simp add: l fl_1)
  have b2: "BEAT_INTERVAL \<le> fl (fl (2000 / 1000) - fl (1000 / 1000))"
    using le by (simp add: fl_1 fl_2)
  have "beat_times ?s [1000, 2000] = [fl (1000 / 1000), fl (2000 / 1000)]"
    using len _ _ b1 b2 by (rule beat_times_two) simp_all
  then have "beat_times ?s [1000, 2000] = [1, 2]"
    by (simp add: fl_1 fl_2)
  then show ?thesis
    using beats_spaced [of ?s "[1000, 2000]"] l by simp
qed

text \<open>
  The claim as stated, with the bound \<open>60 / 70\<close>, fails for the ticks at
  \<open>857.1428571428571\<close> and \<open>1714.2857142857142\<close> ms: both call \<^verbatim>\<open>playHeartbeatSound\<close>, at
  times in seconds that differ by \<open>BEAT_INTERVAL\<close> exactly, which is less than \<open>60 / 70\<close>.
\<close>

theorem beats_counterexample:
  "beat_times (initial\<lparr>frames := replicate 20 []\<rparr>)
     [3769754152374857 / 2 ^ 42, 3769754152374857 / 2 ^ 41] =
     [7720456504063707 / 2 ^ 53, 7720456504063707 / 2 ^ 52] \<and>
   7720456504063707 / 2 ^ 52 - 7720456504063707 / 2 ^ 53 < (60 / 70 :: real)"
proof -
  let ?s = "initial\<lparr>frames := replicate 20 []\<rparr>"
  have len: "length (frames ?s) = 20"
    by simp
  have l: "lastBeatTime ?s = 0"
    by (simp add: initial_def)
  have "fl (fl (3769754152374857 / 2 ^ 42 / 1000) - lastBeatTime ?s) = 7720456504063707 / 2 ^ 53"
    by (simp only: seconds_first l diff_zero fl_beat_interval)
  then have b1: "BEAT_INTERVAL \<le> fl (fl (3769754152374857 / 2 ^ 42 / 1000) - lastBeatTime ?s)"
    by (simp only: BEAT_INTERVAL_value order_refl)
  have "fl (fl (3769754152374857 / 2 ^ 41 / 1000) - fl (3769754152374857 / 2 ^ 42 / 1000)) =
      7720456504063707 / 2 ^ 53"
    by (simp only: seconds_first seconds_second fl_second_gap)
  then have b2: "BEAT_INTERVAL \<le>
      fl (fl (3769754152374857 / 2 ^ 41 / 1000) - fl (3769754152374857 / 2 ^ 42 / 1000))"
    by (simp only: BEAT_INTERVAL_value order_refl)
  have "beat_times ?s [3769754152374857 / 2 ^ 42, 3769754152374857 / 2 ^ 41] =
      [fl (3769754152374857 / 2 ^ 42 / 1000), fl (3769754152374857 / 2 ^ 41 / 1000)]"
    using len _ _ b1 b2 by (rule beat_times_two) simp_all
  then have "beat_times ?s [3769754152374857 / 2 ^ 42, 3769754152374857 / 2 ^ 41] =
     [7720456504063707 / 2 ^ 53, 7720456504063707 / 2 ^ 52]"
    by (simp only: seconds_first seconds_second)
  moreover have "7720456504063707 / 2 ^ 52 - 7720456504063707 / 2 ^ 53 < (60 / 70 :: real)"
    by simp
  ultimately show ?thesis
    by (rule conjI)
qed

section \<open>The frame lookup of a tick\<close>

lemma reachable_frames: "reachable s \<Longrightarrow> frames s = [] \<or> length (frames s) = 20"
proof (induction rule: reachable.induct)
  case start
  show ?case by (simp add: initial_def)
next
  case (generated s rs width height)
  from generatedFrames_frames [OF generated.hyps(2), of width height] obtain fs
    where "generatedFrames rs width height = Some fs" "length fs = 20"
    by blast
  then show ?case
    by (simp add: regenerate_def)
next
  case (tick s time)
  then show ?case by (simp only: render_frames)
next
  case (click s fresh now clientX clientY)
  then show ?case by (simp add: handleCanvasClick_def)
next
  case (browser s ctx st now)
  then show ?case by simp
qed

text \<open>
  Claim C9. In every state the component can reach and for every timestamp that is not
  negative: with no frames, the tick draws nothing, changes nothing and requests the next
  tick; with frames, there are exactly 20 of them, and the tick draws the entry of the
  frame array at its index, which lies between 0 and 19.
\<close>

theorem frame_lookup_in_bounds:
  "reachable s \<Longrightarrow> 0 \<le> time \<Longrightarrow>
     (frames s = [] \<longrightarrow> render s time = (s, False, Idle)) \<and>
     (frames s \<noteq> [] \<longrightarrow>
        length (frames s) = 20 \<and>
        (\<exists>s1 beat i. render s time = (s1, beat, Drawn i (frames s ! nat i)) \<and> 0 \<le> i \<and> i \<le> 19))"
proof -
  assume r: "reachable s" and t: "0 \<le> time"
  have "render s time = (s, False, Idle)" if "frames s = []"
    using that by (simp add: render_def)
  moreover have "length (frames s) = 20 \<and>
        (\<exists>s1 beat i. render s time = (s1, beat, Drawn i (frames s ! nat i)) \<and> 0 \<le> i \<and> i \<le> 19)"
    if "frames s \<noteq> []"
  proof -
    from reachable_frames [OF r] that have len: "length (frames s) = 20" by simp
    from render_drawn [OF len t] len show ?thesis by blast
  qed
  ultimately show ?thesis by blast
qed

theorem frame_lookup_in_bounds_witness:
  "render initial 0 = (initial, False, Idle) \<and>
   length (frames (regenerate initial (\<lambda>k. 1 / 2) 840 680)) = 20 \<and>
   (\<exists>s1 beat. render (regenerate initial (\<lambda>k. 1 / 2) 840 680) 8700 =
      (s1, beat, Drawn 2 (frames (regenerate initial (\<lambda>k. 1 / 2) 840 680) ! 2)))"
proof -
  let ?s = "regenerate initial (\<lambda>k. 1 / 2) 840 680"
  have r0: "reachable initial"
    by (rule reachable.start)
  then have r1: "reachable ?s"
    by (rule reachable.generated) simp
  have ne: "frames ?s \<noteq> []"
    using generatedFrames_frames [of "\<lambda>k. 1 / 2" 840 680]
    by (auto simp: regenerate_def)
  have e: "frames initial = []"
    by (simp add: initial_def)
  from frame_lookup_in_bounds [OF r0, of 0] e have idle: "render initial 0 = (initial, False, Idle)"
    by simp
  from frame_lookup_in_bounds [OF r1, of 8700] ne obtain s1 beat i
    where len: "length (frames ?s) = 20"
      and d: "render ?s 8700 = (s1, beat, Drawn i (frames ?s ! nat i))"
    by auto
  from render_selected [OF ne, of 8700] have "selected (snd (snd (render ?s 8700))) = Some 2"
    by (simp only: frameIndex_8700)
  with d have "i = 2"
    by simp
  with d have "render ?s 8700 = (s1, beat, Drawn 2 (frames ?s ! 2))"
    by simp
  with idle len show ?thesis
    by blast
qed

section \<open>Floating texts: decay and removal\<close>

lemma decay_funpow:
  "(decay ^^ k) t =
     t\<lparr>ft_y := ft_y t - real k, ft_opacity := ft_opacity t - real k / 100,
       ft_scale := ft_scale t + real k / 200\<rparr>"
proof (induction k)
  case 0
  show ?case by simp
next
  case (Suc k)
  have "(decay ^^ Suc k) t = decay ((decay ^^ k) t)"
    by simp
  also have "\<dots> = decay (t\<lparr>ft_y := ft_y t - real k, ft_opacity := ft_opacity t - real k / 100,
       ft_scale := ft_scale t + real k / 200\<rparr>)"
    by (simp only: Suc.IH)
  also have "\<dots> = t\<lparr>ft_y := ft_y t - real (Suc k), ft_opacity := ft_opacity t - real (Suc k) / 100,
       ft_scale := ft_scale t + real (Suc k) / 200\<rparr>"
    by (simp add: decay_def field_simps)
  finally show ?case .
qed

lemma decay_newText:
  "(decay ^^ k) (newText now x0 y0) =
     \<lparr>ft_id = now, ft_x = x0, ft_y = y0 - real k,
       ft_opacity = 1 - 0.01 * real k, ft_scale = 1 + 0.005 * real k\<rparr>"
  by (simp only: decay_funpow) (simp add: newText_def)

lemma update_single:
  "updateFloatingTexts [t] = (if ft_opacity (decay t) > 0 then [decay t] else [])"
  by (simp add: updateFloatingTexts_def)

lemma update_empty: "updateFloatingTexts [] = []"
  by (simp add: updateFloatingTexts_def)

lemma update_empty_funpow: "(updateFloatingTexts ^^ k) [] = []"
proof (induction k)
  case 0
  show ?case by simp
next
  case (Suc k)
  have "(updateFloatingTexts ^^ Suc k) [] = updateFloatingTexts ((updateFloatingTexts ^^ k) [])"
    by simp
  then show ?case
    by (simp only: Suc.IH update_empty)
qed

lemma update_funpow_single:
  "(updateFloatingTexts ^^ k) [newText now x0 y0] =
     (if k < 100 then [(decay ^^ k) (newText now x0 y0)] else [])"
proof (induction k)
  case 0
  show ?case by simp
next
  case (Suc k)
  let ?t = "newText now x0 y0"
  have step: "(updateFloatingTexts ^^ Suc k) [?t] = updateFloatingTexts ((updateFloatingTexts ^^ k) [?t])"
    by simp
  have op: "ft_opacity (decay ((decay ^^ k) ?t)) = 1 - 0.01 * real (Suc k)"
  proof -
    have "decay ((decay ^^ k) ?t) = (decay ^^ Suc k) ?t"
      by simp
    then show ?thesis
      by (simp only: decay_newText) simp
  qed
  show ?case
  proof (cases "k < 100")
    case True
    then have "(updateFloatingTexts ^^ Suc k) [?t] = updateFloatingTexts [(decay ^^ k) ?t]"
      using step Suc.IH by simp
    also have "\<dots> = (if Suc k < 100 then [decay ((decay ^^ k) ?t)] else [])"
      using True by (simp only: update_single op) auto
    finally show ?thesis
      by simp
  next
    case False
    then have "(updateFloatingTexts ^^ Suc k) [?t] = updateFloatingTexts []"
      using step Suc.IH by simp
    then show ?thesis
      using False by (simp add: update_empty)
  qed
qed

lemma update_append: "updateFloatingTexts (xs @ ys) = updateFloatingTexts xs @ updateFloatingTexts ys"
  by (simp add: updateFloatingTexts_def)

lemma update_funpow_append:
  "(updateFloatingTexts ^^ k) (xs @ ys) = (updateFloatingTexts ^^ k) xs @ (updateFloatingTexts ^^ k) ys"
proof (induction k)
  case 0
  show ?case by simp
next
  case (Suc k)
  have "(updateFloatingTexts ^^ Suc k) (xs @ ys) = updateFloatingTexts ((updateFloatingTexts ^^ k) (xs @ ys))"
    by simp
  also have "\<dots> = updateFloatingTexts ((updateFloatingTexts ^^ k) xs @ (updateFloatingTexts ^^ k) ys)"
    by (simp only: Suc.IH)
  also have "\<dots> = updateFloatingTexts ((updateFloatingTexts ^^ k) xs) @
      updateFloatingTexts ((updateFloatingTexts ^^ k) ys)"
    by (rule update_append)
  finally show ?case by simp
qed

lemma update_funpow_text:
  "(updateFloatingTexts ^^ k) (before @ [newText now x0 y0] @ after) =
     (updateFloatingTexts ^^ k) before @
     (if 1 - 0.01 * real k \<le> 0 then []
      else [\<lparr>ft_id = now, ft_x = x0, ft_y = y0 - real k,
             ft_opacity = 1 - 0.01 * real k, ft_scale = 1 + 0.005 * real k\<rparr>]) @
     (updateFloatingTexts ^^ k) after"
proof -
  have eq: "(1 - 0.01 * real k \<le> 0) = (100 \<le> k)"
    by auto
  have "(updateFloatingTexts ^^ k) [newText now x0 y0] =
     (if k < 100 then [(decay ^^ k) (newText now x0 y0)] else [])"
    by (rule update_funpow_single)
  then have single: "(updateFloatingTexts ^^ k) [newText now x0 y0] =
     (if 1 - 0.01 * real k \<le> 0 then []
      else [\<lparr>ft_id = now, ft_x = x0, ft_y = y0 - real k,
             ft_opacity = 1 - 0.01 * real k, ft_scale = 1 + 0.005 * real k\<rparr>])"
    using eq by (simp only: decay_newText) auto
  have "(updateFloatingTexts ^^ k) (before @ [newText now x0 y0] @ after) =
     (updateFloatingTexts ^^ k) before @ (updateFloatingTexts ^^ k) [newText now x0 y0] @
     (updateFloatingTexts ^^ k) after"
    by (simp only: update_funpow_append)
  then show ?thesis
    by (simp only: single)
qed

text \<open>
  Every tick that draws a frame applies the updater to the texts once: a run of ticks
  with 20 frames and timestamps that are not negative applies it once for each tick.
\<close>

lemma run_state_texts:
  "length (frames s) = 20 \<Longrightarrow> \<forall>time \<in> set ticks. 0 \<le> time \<Longrightarrow>
     floatingTexts (run_state s ticks) = (updateFloatingTexts ^^ length ticks) (floatingTexts s)"
proof (induction ticks arbitrary: s)
  case Nil
  show ?case by simp
next
  case (Cons time ticks)
  from Cons.prems have t: "0 \<le> time" and ts: "\<forall>time \<in> set ticks. 0 \<le> time"
    by simp_all
  from render_drawn [OF Cons.prems(1) t] obtain s1 beat i ps
    where r: "render s time = (s1, beat, Drawn i ps)"
      and f: "frames s1 = frames s"
      and u: "floatingTexts s1 = updateFloatingTexts (floatingTexts s)"
    by blast
  from f Cons.prems(1) have len: "length (frames s1) = 20"
    by simp
  have "floatingTexts (run_state s (time # ticks)) = floatingTexts (run_state s1 ticks)"
    by (simp add: r)
  also have "\<dots> = (updateFloatingTexts ^^ length ticks) (floatingTexts s1)"
    using len ts by (rule Cons.IH)
  also have "\<dots> = (updateFloatingTexts ^^ length ticks) (updateFloatingTexts (floatingTexts s))"
    by (simp only: u)
  also have "\<dots> = (updateFloatingTexts ^^ length (time # ticks)) (floatingTexts s)"
    by (simp add: funpow_swap1)
  finally show ?case .
qed

text \<open>
  Claim C7. In a state the component can reach, with frames to draw, let the overlay list
  hold a text created by a click at \<open>(x0, y0)\<close> (opacity 1, scale 1), anywhere in the list.
  After \<open>k\<close> ticks of \<^verbatim>\<open>render\<close> (at timestamps that are not negative) the text is still
  listed exactly if \<open>1 - 0.01k > 0\<close>, and then with \<open>opacity = 1 - 0.01k\<close>,
  \<open>scale = 1 + 0.005k\<close> and \<open>y = y0 - k\<close> (its id and \<open>x\<close> unchanged), between what \<open>k\<close>
  updates leave of the texts before it and of those after it; \<open>1 - 0.01k \<le> 0\<close> holds from
  \<open>k = 100\<close> on and not before. Each such tick applies the updater of the texts once. The
  opacities and scales are computed over the reals.
\<close>

theorem floating_text_decay:
  "reachable s \<Longrightarrow> frames s \<noteq> [] \<Longrightarrow> \<forall>time \<in> set ticks. 0 \<le> time \<Longrightarrow>
   floatingTexts s = before @ [newText now x0 y0] @ after \<Longrightarrow> k = length ticks \<Longrightarrow>
     floatingTexts (run_state s ticks) =
       (updateFloatingTexts ^^ k) before @
       (if 1 - 0.01 * real k \<le> 0 then []
        else [\<lparr>ft_id = now, ft_x = x0, ft_y = y0 - real k,
               ft_opacity = 1 - 0.01 * real k, ft_scale = 1 + 0.005 * real k\<rparr>]) @
       (updateFloatingTexts ^^ k) after
     \<and> ((1 - 0.01 * real k \<le> 0) = (100 \<le> k))
     \<and> (\<forall>time. 0 \<le> time \<longrightarrow>
          floatingTexts (fst (render s time)) = updateFloatingTexts (floatingTexts s))"
proof -
  assume r: "reachable s" and ne: "frames s \<noteq> []" and ts: "\<forall>time \<in> set ticks. 0 \<le> time"
    and l: "floatingTexts s = before @ [newText now x0 y0] @ after" and k: "k = length ticks"
  from reachable_frames [OF r] ne have len: "length (frames s) = 20"
    by simp
  have "floatingTexts (run_state s ticks) = (updateFloatingTexts ^^ k) (floatingTexts s)"
    unfolding k using len ts by (rule run_state_texts)
  also have "\<dots> = (updateFloatingTexts ^^ k) (before @ [newText now x0 y0] @ after)"
    by (simp only: l)
  also have "\<dots> = (updateFloatingTexts ^^ k) before @
       (if 1 - 0.01 * real k \<le> 0 then []
        else [\<lparr>ft_id = now, ft_x = x0, ft_y = y0 - real k,
               ft_opacity = 1 - 0.01 * real k, ft_scale = 1 + 0.005 * real k\<rparr>]) @
       (updateFloatingTexts ^^ k) after"
    by (rule update_funpow_text)
  finally have a: "floatingTexts (run_state s ticks) =
       (updateFloatingTexts ^^ k) before @
       (if 1 - 0.01 * real k \<le> 0 then []
        else [\<lparr>ft_id = now, ft_x = x0, ft_y = y0 - real k,
               ft_opacity = 1 - 0.01 * real k, ft_scale = 1 + 0.005 * real k\<rparr>]) @
       (updateFloatingTexts ^^ k) after" .
  have b: "(1 - 0.01 * real k \<le> 0) = (100 \<le> k)"
    by auto
  have c: "floatingTexts (fst (render s time)) = updateFloatingTexts (floatingTexts s)"
    if "0 \<le> time" for time
    using render_drawn [OF len that] by auto
  from a b c show ?thesis
    by blast
qed

theorem floating_text_decay_witness:
  "floatingTexts (run_state
     (handleCanvasClick (regenerate initial (\<lambda>k. 1 / 2) 840 680)
        \<lparr>ctx_state = Suspended, currentTime = 0, scheduled = []\<rparr> 7 100 200)
     (replicate 99 16)) =
     [\<lparr>ft_id = 7, ft_x = 100, ft_y = 101, ft_opacity = 0.01, ft_scale = 1.495\<rparr>] \<and>
   floatingTexts (run_state
     (handleCanvasClick (regenerate initial (\<lambda>k. 1 / 2) 840 680)
        \<lparr>ctx_state = Suspended, currentTime = 0, scheduled = []\<rparr> 7 100 200)
     (replicate 100 16)) = []"
proof -
  let ?g = "regenerate initial (\<lambda>k. 1 / 2) 840 680"
  let ?s = "handleCanvasClick ?g \<lparr>ctx_state = Suspended, currentTime = 0, scheduled = []\<rparr> 7 100 200"
  have "reachable initial"
    by (rule reachable.start)
  then have "reachable ?g"
    by (rule reachable.generated) simp
  then have r: "reachable ?s"
    by (rule reachable.click)
  have "frames ?g \<noteq> []"
    using generatedFrames_frames [of "\<lambda>k. 1 / 2" 840 680]
    by (auto simp: regenerate_def)
  then have ne: "frames ?s \<noteq> []"
    by (simp add: handleCanvasClick_def)
  have "floatingTexts ?g = []"
    by (simp add: regenerate_def initial_def split: option.splits)
  then have l: "floatingTexts ?s = [] @ [newText 7 100 200] @ []"
    by (simp add: handleCanvasClick_def)
  have t99: "\<forall>time \<in> set (replicate 99 (16::real)). 0 \<le> time"
    and t100: "\<forall>time \<in> set (replicate 100 (16::real)). 0 \<le> time"
    by simp_all
  have k99: "(99::nat) = length (replicate 99 (16::real))"
    and k100: "(100::nat) = length (replicate 100 (16::real))"
    by simp_all
  show ?thesis
    using floating_text_decay [OF r ne t99 l k99] floating_text_decay [OF r ne t100 l k100]
    by (simp add: update_empty_funpow)
qed

text \<open>
  Claim C10. After an update of any overlay list, every text that is left has an opacity
  above 0: a text whose decayed opacity is 0 or less is dropped by the same update.
\<close>

theorem floating_texts_visible:
  "\<forall>t \<in> set (updateFloatingTexts prev). ft_opacity t > 0"
  by (simp add: updateFloatingTexts_def)

theorem floating_texts_visible_witness:
  "updateFloatingTexts
     [newText 7 100 200, \<lparr>ft_id = 8, ft_x = 5, ft_y = 5, ft_opacity = 0.01, ft_scale = 1.495\<rparr>] =
     [\<lparr>ft_id = 7, ft_x = 100, ft_y = 199, ft_opacity = 0.99, ft_scale = 1.005\<rparr>]
   \<and> 0 < ft_opacity \<lparr>ft_id = 7, ft_x = 100, ft_y = 199, ft_opacity = 0.99, ft_scale = 1.005\<rparr>"
  using floating_texts_visible
    [of "[newText 7 100 200, \<lparr>ft_id = 8, ft_x = 5, ft_y = 5, ft_opacity = 0.01, ft_scale = 1.495\<rparr>]"]
  by (simp add: updateFloatingTexts_def decay_def newText_def)

section \<open>The heartbeat sound when the audio output is not running\<close>

text \<open>
  Claim C8. When \<^verbatim>\<open>audioContextRef.current\<close> is \<^verbatim>\<open>null\<close> or a context whose state is not
  \<open>running\<close>, \<^verbatim>\<open>playHeartbeatSound\<close> leaves it as it is (nothing is created or scheduled on
  it), and so does a whole tick of \<^verbatim>\<open>render\<close>, whatever its timestamp: nothing is queued
  for later.
\<close>

theorem heartbeat_sound_noop:
  "audioContext s = None \<or> (\<exists>ctx. audioContext s = Some ctx \<and> ctx_state ctx \<noteq> Running) \<Longrightarrow>
     playHeartbeatSound (audioContext s) = audioContext s \<and>
     audioContext (fst (render s time)) = audioContext s"
proof -
  assume a: "audioContext s = None \<or> (\<exists>ctx. audioContext s = Some ctx \<and> ctx_state ctx \<noteq> Running)"
  then have noop: "playHeartbeatSound (audioContext s) = audioContext s"
    by (auto simp: playHeartbeatSound_def)
  then have "audioContext (fst (render s time)) = audioContext s"
    by (simp add: render_def Let_def split: option.splits)
  with noop show ?thesis
    by simp
qed

theorem heartbeat_sound_noop_witness:
  "playHeartbeatSound (Some \<lparr>ctx_state = Suspended, currentTime = 3, scheduled = []\<rparr>) =
     Some \<lparr>ctx_state = Suspended, currentTime = 3, scheduled = []\<rparr> \<and>
   audioContext (fst (render
     \<lparr>frames = [[]], lastBeatTime = 0,
      audioContext = Some \<lparr>ctx_state = Suspended, currentTime = 3, scheduled = []\<rparr>,
      floatingTexts = []\<rparr> 1000)) =
     Some \<lparr>ctx_state = Suspended, currentTime = 3, scheduled = []\<rparr>"
  using heartbeat_sound_noop
    [of "\<lparr>frames = [[]], lastBeatTime = 0,
          audioContext = Some \<lparr>ctx_state = Suspended, currentTime = 3, scheduled = []\<rparr>,
          floatingTexts = []\<rparr>" 1000]
  by simp

section \<open>The projection of the point sets\<close>

lemma Fin_minus: "Fin a - Fin b = Fin (a - b)"
  by (simp add: minus_number_def)

lemma js_pow_square: "js_pow (Fin a) 2 = Fin (a\<^sup>2)"
proof -
  consider "a = 0" | "0 < a" | "a < 0" by linarith
  then show ?thesis
  proof cases
    case 1
    then show ?thesis by (simp add: js_pow_def)
  next
    case 2
    then show ?thesis by (simp add: js_pow_def)
  next
    case 3
    then show ?thesis by (simp add: js_pow_def)
  qed
qed

lemma js_pow_pos: "0 < a \<Longrightarrow> e \<noteq> 0 \<Longrightarrow> js_pow (Fin a) e = Fin (a powr e)"
  by (simp add: js_pow_def)

lemma distSq_pos: "(x, y) \<noteq> (centerX, centerY) \<Longrightarrow> 0 < (x - centerX)\<^sup>2 + (y - centerY)\<^sup>2" for x :: real
  by (auto simp: sum_power2_gt_zero_iff)

lemma powr_squared_distance:
  "0 < s \<Longrightarrow> s powr e = sqrt s powr (2 * e)"
proof -
  assume s: "0 < s"
  then have "s = sqrt s powr 2" by simp
  then have "s powr e = (sqrt s powr 2) powr e" by simp
  also have "\<dots> = sqrt s powr (2 * e)" by (simp only: powr_powr)
  finally show ?thesis .
qed

lemma calcPosition_finite:
  assumes "(x, y) \<noteq> (centerX, centerY)"
  shows "calcPosition centerX centerY (Fin x) (Fin y) (Fin ratio) u1 u2 =
     (Fin (x - (ratio * (1 / ((x - centerX)\<^sup>2 + (y - centerY)\<^sup>2) powr 0.42) * (x - centerX) + (u1 * 2 - 1))),
      Fin (y - (ratio * (1 / ((x - centerX)\<^sup>2 + (y - centerY)\<^sup>2) powr 0.42) * (y - centerY) + (u2 * 2 - 1))))"
proof -
  define s where "s = (x - centerX)\<^sup>2 + (y - centerY)\<^sup>2"
  from distSq_pos [OF assms] have s: "0 < s"
    by (simp only: s_def)
  then have p: "s powr 0.42 \<noteq> 0" by simp
  have d: "js_pow (Fin x - Fin centerX) 2 + js_pow (Fin y - Fin centerY) 2 = Fin s"
    by (simp add: Fin_minus js_pow_square s_def)
  have jp: "js_pow (Fin s) 0.42 = Fin (s powr 0.42)"
    by (rule js_pow_pos [OF s]) simp
  have f: "Fin 1 / js_pow (Fin s) 0.42 = Fin (1 / s powr 0.42)"
    unfolding jp using p by simp
  show ?thesis
    unfolding calcPosition_def Let_def d f by (simp add: Fin_minus s_def)
qed

lemma calcPosition_centre:
  "calcPosition centerX centerY (Fin centerX) (Fin centerY) (Fin ratio) u1 u2 = (NaN, NaN)"
  by (simp add: calcPosition_def Let_def minus_number_def js_pow_def)

lemma curve_frame_1: "0 < curve (frame_phase 1)"
proof -
  have "4 * frame_phase 1 = pi / 5"
    by (simp add: frame_phase_def GENERATE_FRAMES_def)
  moreover have "0 < sin (pi / 5)"
    by (intro sin_gt_zero) simp_all
  ultimately have "0 < sin (4 * frame_phase 1)"
    by (simp only:)
  then show ?thesis
    unfolding curve_def by (intro divide_pos_pos mult_pos_pos) simp_all
qed

text \<open>The point of the heart curve at \<open>t = 0\<close> on a canvas of 840 by 680.\<close>

lemma heartFunction_0: "heartFunction (840 / 2) (680 / 2) 0 = (Fin 420, Fin 252)"
  by (simp add: heartFunction_def Let_def IMAGE_ENLARGE_def)

lemma sqrt_7744: "sqrt 7744 = 88"
proof -
  have "sqrt 7744 = sqrt (88\<^sup>2)" by simp
  also have "\<dots> = 88" by (simp only: real_sqrt_abs abs_numeral)
  finally show ?thesis .
qed

lemma powr_7744_88: "0 < e \<Longrightarrow> (88::real) powr e < 7744 powr e"
  by (rule powr_less_mono2) simp_all

text \<open>
  Claim C5, amended. For a finite point \<open>(x, y)\<close> other than the canvas centre, a finite
  ratio and two draws in \<open>[0, 1)\<close>, \<^verbatim>\<open>calcPosition\<close> returns the point minus
  \<open>ratio * force * (point - centre) + noise\<close>, where \<open>force = 1 / distance ^ 0.84\<close> for the
  distance of the point from the centre (the code raises the squared distance to the power
  0.42), and the noise is \<open>2u - 1\<close> for the draw \<open>u\<close> of its axis, a number in \<open>[-1, 1)\<close>.
\<close>

theorem calcPosition_projection:
  "(x, y) \<noteq> (centerX, centerY) \<Longrightarrow> 0 \<le> u1 \<and> u1 < 1 \<Longrightarrow> 0 \<le> u2 \<and> u2 < 1 \<Longrightarrow>
     calcPosition centerX centerY (Fin x) (Fin y) (Fin ratio) u1 u2 =
       (Fin (x - (ratio * (1 / sqrt ((x - centerX)\<^sup>2 + (y - centerY)\<^sup>2) powr 0.84) * (x - centerX)
                  + (u1 * 2 - 1))),
        Fin (y - (ratio * (1 / sqrt ((x - centerX)\<^sup>2 + (y - centerY)\<^sup>2) powr 0.84) * (y - centerY)
                  + (u2 * 2 - 1)))) \<and>
     - 1 \<le> u1 * 2 - 1 \<and> u1 * 2 - 1 < 1 \<and> - 1 \<le> u2 * 2 - 1 \<and> u2 * 2 - 1 < 1"
proof -
  assume ne: "(x, y) \<noteq> (centerX, centerY)" and u1: "0 \<le> u1 \<and> u1 < 1" and u2: "0 \<le> u2 \<and> u2 < 1"
  let ?s = "(x - centerX)\<^sup>2 + (y - centerY)\<^sup>2"
  from distSq_pos [OF ne] have "0 < ?s" .
  then have "?s powr 0.42 = sqrt ?s powr (2 * 0.42)"
    by (rule powr_squared_distance)
  then have e: "?s powr 0.42 = sqrt ?s powr 0.84"
    by simp
  have "calcPosition centerX centerY (Fin x) (Fin y) (Fin ratio) u1 u2 =
       (Fin (x - (ratio * (1 / sqrt ?s powr 0.84) * (x - centerX) + (u1 * 2 - 1))),
        Fin (y - (ratio * (1 / sqrt ?s powr 0.84) * (y - centerY) + (u2 * 2 - 1))))"
    by (simp only: calcPosition_finite [OF ne] e)
  moreover from u1 u2 have "- 1 \<le> u1 * 2 - 1 \<and> u1 * 2 - 1 < 1 \<and> - 1 \<le> u2 * 2 - 1 \<and> u2 * 2 - 1 < 1"
    by simp
  ultimately show ?thesis by (rule conjI)
qed

theorem calcPosition_projection_witness:
  "calcPosition 420 340 (Fin 420) (Fin 252) (Fin 1) (1 / 2) (1 / 2) =
     (Fin 420, Fin (252 + 88 / 88 powr 0.84))"
  using calcPosition_projection [of 420 252 420 340 "1 / 2" "1 / 2" 1]
  by (simp add: sqrt_7744)

text \<open>
  The claim as stated, with \<open>force = 1 / distance ^ 0.42\<close>, fails for the point of the heart
  curve at \<open>t = 0\<close> on a canvas of 840 by 680, which is \<open>(420, 252)\<close> at distance 88 from
  the centre \<open>(420, 340)\<close>, with the ratio of frame 1 and noise 0 (both draws 1/2).
\<close>

theorem calcPosition_counterexample:
  "calcPosition 420 340 (Fin 420) (Fin 252) (Fin (15 * curve (frame_phase 1))) (1 / 2) (1 / 2) \<noteq>
     (Fin (420 - (15 * curve (frame_phase 1) * (1 / sqrt ((420 - 420)\<^sup>2 + (252 - 340)\<^sup>2) powr 0.42) * (420 - 420)
                  + (1 / 2 * 2 - 1))),
      Fin (252 - (15 * curve (frame_phase 1) * (1 / sqrt ((420 - 420)\<^sup>2 + (252 - 340)\<^sup>2) powr 0.42) * (252 - 340)
                  + (1 / 2 * 2 - 1))))"
proof -
  define c where "c = curve (frame_phase 1)"
  have c: "0 < c" unfolding c_def by (rule curve_frame_1)
  have lt: "(88::real) powr 0.42 < 7744 powr 0.42"
    by (rule powr_7744_88) simp
  have p88: "0 < (88::real) powr 0.42" and p7744: "0 < (7744::real) powr 0.42"
    by simp_all
  define a b :: real where "a = 1 / 7744 powr 0.42" and "b = 1 / 88 powr 0.42"
  from lt p88 p7744 have "a < b"
    unfolding a_def b_def by (simp add: frac_less2)
  with c have "15 * c * a * 88 < 15 * c * b * 88"
    by simp
  then have "15 * c * a * 88 \<noteq> 15 * c * b * 88"
    by (rule less_imp_neq)
  note ne = this [unfolded a_def b_def]
  have l: "calcPosition 420 340 (Fin 420) (Fin 252) (Fin (15 * c)) (1 / 2) (1 / 2) =
      (Fin 420, Fin (252 + 15 * c * (1 / 7744 powr 0.42) * 88))"
    by (simp add: calcPosition_finite)
  show ?thesis
    unfolding c_def [symmetric] l using ne by (simp add: sqrt_7744)
qed

section \<open>The halo points\<close>

lemma heart_y_nonzero:
  fixes t :: real
  assumes "sin t = 0"
  shows "- (16 * cos t - 5 * cos (2 * t) - 3 * cos (3 * t)) \<noteq> 0"
proof -
  from assms have c: "cos t = 1 \<or> cos t = - 1"
    using sin_zero_abs_cos_one [of t] by auto
  from c have "(cos t)\<^sup>2 = 1" by auto
  with assms have c2: "cos (2 * t) = 1"
    by (simp add: cos_double)
  have c3: "cos (3 * t) = 4 * cos t ^ 3 - 3 * cos t"
    by (rule cos_treble_cos)
  from c show ?thesis
  proof
    assume "cos t = 1"
    then show ?thesis by (simp add: c2 c3)
  next
    assume "cos t = - 1"
    then show ?thesis by (simp add: c2 c3)
  qed
qed

lemma heartFunction_off_centre:
  "\<exists>hx hy. heartFunction centerX centerY t = (Fin hx, Fin hy) \<and> (hx, hy) \<noteq> (centerX, centerY)"
proof (cases "sin t = 0")
  case True
  from heart_y_nonzero [OF True] show ?thesis
    by (simp add: heartFunction_def Let_def IMAGE_ENLARGE_def)
next
  case False
  then show ?thesis
    by (simp add: heartFunction_def Let_def IMAGE_ENLARGE_def)
qed

lemma shrink_finite:
  assumes "(x, y) \<noteq> (centerX, centerY)"
  shows "shrink centerX centerY (Fin x) (Fin y) (Fin ratio) =
     (Fin (x - ratio * (- 1 / sqrt ((x - centerX)\<^sup>2 + (y - centerY)\<^sup>2) powr 1.2) * (x - centerX)),
      Fin (y - ratio * (- 1 / sqrt ((x - centerX)\<^sup>2 + (y - centerY)\<^sup>2) powr 1.2) * (y - centerY)))"
proof -
  define s where "s = (x - centerX)\<^sup>2 + (y - centerY)\<^sup>2"
  from distSq_pos [OF assms] have s: "0 < s"
    by (simp only: s_def)
  then have p: "s powr 0.6 \<noteq> 0" by simp
  from s have "s powr 0.6 = sqrt s powr (2 * 0.6)"
    by (rule powr_squared_distance)
  then have e: "s powr 0.6 = sqrt s powr 1.2" by simp
  have d: "js_pow (Fin x - Fin centerX) 2 + js_pow (Fin y - Fin centerY) 2 = Fin s"
    by (simp add: Fin_minus js_pow_square s_def)
  have jp: "js_pow (Fin s) 0.6 = Fin (s powr 0.6)"
    by (rule js_pow_pos [OF s]) simp
  have f: "Fin (- 1) / js_pow (Fin s) 0.6 = Fin (- 1 / s powr 0.6)"
    unfolding jp using p by simp
  have main: "shrink centerX centerY (Fin x) (Fin y) (Fin ratio) =
     (Fin (x - ratio * (- 1 / s powr 0.6) * (x - centerX)),
      Fin (y - ratio * (- 1 / s powr 0.6) * (y - centerY)))"
    unfolding shrink_def Let_def d f by (simp add: Fin_minus)
  show ?thesis
    using main [unfolded e] unfolding s_def .
qed

lemma shrink_centre:
  "shrink centerX centerY (Fin centerX) (Fin centerY) (Fin ratio) = (NaN, NaN)"
  by (simp add: shrink_def Let_def minus_number_def js_pow_def)

lemma curve_bound: "\<bar>curve p\<bar> \<le> 1"
proof -
  have c: "curve p = 2 * sin (4 * p) / pi" by (simp add: curve_def)
  have "\<bar>sin (4 * p)\<bar> \<le> 1" by (rule abs_sin_le_one)
  then have "\<bar>2 * sin (4 * p)\<bar> \<le> 2" by (simp add: abs_mult)
  also have "2 \<le> pi" by (rule pi_ge_two)
  finally have "\<bar>2 * sin (4 * p)\<bar> / pi \<le> 1" by simp
  then show ?thesis by (simp add: c)
qed

lemma haloRadius_pos: "0 < 4 + 6 * (1 + curve p)"
  using curve_bound [of p] by (simp add: abs_le_iff)

lemma pushed_away:
  assumes d: "0 < sqrt ((x - centerX)\<^sup>2 + (y - centerY)\<^sup>2)" and r: "0 < ratio"
  shows "sqrt ((x - centerX)\<^sup>2 + (y - centerY)\<^sup>2) <
     sqrt ((x - ratio * (- 1 / sqrt ((x - centerX)\<^sup>2 + (y - centerY)\<^sup>2) powr 1.2) * (x - centerX) - centerX)\<^sup>2 +
           (y - ratio * (- 1 / sqrt ((x - centerX)\<^sup>2 + (y - centerY)\<^sup>2) powr 1.2) * (y - centerY) - centerY)\<^sup>2)"
proof -
  define dist where "dist = sqrt ((x - centerX)\<^sup>2 + (y - centerY)\<^sup>2)"
  define a where "a = ratio / dist powr 1.2"
  from d have dp: "0 < dist" by (simp only: dist_def)
  then have "0 < dist powr 1.2" by simp
  with r have a: "0 < a" by (simp add: a_def)
  have x: "x - ratio * (- 1 / dist powr 1.2) * (x - centerX) - centerX = (1 + a) * (x - centerX)"
    by (simp add: a_def algebra_simps)
  have y: "y - ratio * (- 1 / dist powr 1.2) * (y - centerY) - centerY = (1 + a) * (y - centerY)"
    by (simp add: a_def algebra_simps)
  have "sqrt (((1 + a) * (x - centerX))\<^sup>2 + ((1 + a) * (y - centerY))\<^sup>2) =
      sqrt ((1 + a)\<^sup>2 * ((x - centerX)\<^sup>2 + (y - centerY)\<^sup>2))"
    by (simp only: power_mult_distrib distrib_left)
  also have "\<dots> = (1 + a) * dist"
    using a by (simp add: real_sqrt_mult dist_def)
  finally have "sqrt (((1 + a) * (x - centerX))\<^sup>2 + ((1 + a) * (y - centerY))\<^sup>2) = (1 + a) * dist" .
  moreover from a dp have "dist < (1 + a) * dist" by simp
  ultimately show ?thesis
    unfolding dist_def [symmetric] x y by simp
qed

lemma repeat_nth:
  assumes step: "\<And>j. snd (body j) = j + d"
  shows "i < n \<Longrightarrow> fst (repeat n body k) ! i = fst (body (k + d * i))"
proof (induction n arbitrary: k i)
  case 0
  then show ?case by simp
next
  case (Suc n)
  show ?case
  proof (cases i)
    case 0
    then show ?thesis
      by (simp add: split_beta Let_def)
  next
    case (Suc i')
    with Suc.prems have "i' < n" by simp
    from Suc.IH [OF this, of "snd (body k)"]
    have "fst (repeat n body (snd (body k))) ! i' = fst (body (k + d + d * i'))"
      by (simp only: step)
    with Suc show ?thesis
      by (simp add: split_beta Let_def add.assoc)
  qed
qed

lemma haloPoint_step: "snd (haloPoint rs centerX centerY haloRadius j) = j + 4"
  by (simp add: haloPoint_def split_beta Let_def)

lemma generateFrame_halo:
  assumes "i < nat (haloNumber frame)"
  shows "fst (generateFrame rs centerX centerY base edge center frame k) ! i =
     fst (haloPoint rs centerX centerY (4 + 6 * (1 + curve (frame_phase frame))) (k + 4 * i))"
proof -
  let ?body = "haloPoint rs centerX centerY (4 + 6 * (1 + curve (frame_phase frame)))"
  let ?halo = "fst (repeat (nat (haloNumber frame)) ?body k)"
  have "length ?halo = nat (haloNumber frame)"
    by (rule repeat_length)
  with assms have "fst (generateFrame rs centerX centerY base edge center frame k) ! i = ?halo ! i"
    by (simp add: generateFrame_def Let_def split_beta nth_append)
  also have "\<dots> = fst (?body (k + 4 * i))"
    using assms by (intro repeat_nth haloPoint_step)
  finally show ?thesis .
qed

lemma haloPoint_described:
  assumes rs: "\<forall>k. 0 \<le> rs k \<and> rs k < 1" and r: "0 < haloRadius"
  shows "\<exists>hx hy dist force.
     heartFunction centerX centerY (rs j * 2 * pi) = (Fin hx, Fin hy) \<and>
     dist = sqrt ((hx - centerX)\<^sup>2 + (hy - centerY)\<^sup>2) \<and> 0 < dist \<and>
     force = - 1 / dist powr 1.2 \<and>
     fst (haloPoint rs centerX centerY haloRadius j) =
       \<lparr>pt_x = Fin (hx - haloRadius * force * (hx - centerX) + (rs (j + 1) * 120 - 60)),
        pt_y = Fin (hy - haloRadius * force * (hy - centerY) + (rs (j + 2) * 120 - 60)),
        pt_size = (if rs (j + 3) < 0.66 then Fin 1 else Fin 2)\<rparr> \<and>
     - 60 \<le> rs (j + 1) * 120 - 60 \<and> rs (j + 1) * 120 - 60 < 60 \<and>
     - 60 \<le> rs (j + 2) * 120 - 60 \<and> rs (j + 2) * 120 - 60 < 60 \<and>
     dist < sqrt ((hx - haloRadius * force * (hx - centerX) - centerX)\<^sup>2 +
                  (hy - haloRadius * force * (hy - centerY) - centerY)\<^sup>2)"
proof -
  from heartFunction_off_centre [of centerX centerY "rs j * 2 * pi"] obtain hx hy
    where h: "heartFunction centerX centerY (rs j * 2 * pi) = (Fin hx, Fin hy)"
      and ne: "(hx, hy) \<noteq> (centerX, centerY)"
    by blast
  define dist where "dist = sqrt ((hx - centerX)\<^sup>2 + (hy - centerY)\<^sup>2)"
  define force where "force = - 1 / dist powr 1.2"
  from distSq_pos [OF ne] have dp: "0 < dist"
    by (simp only: dist_def real_sqrt_gt_0_iff)
  have s: "shrink centerX centerY (Fin hx) (Fin hy) (Fin haloRadius) =
      (Fin (hx - haloRadius * force * (hx - centerX)), Fin (hy - haloRadius * force * (hy - centerY)))"
    unfolding force_def dist_def by (rule shrink_finite [OF ne])
  have p: "fst (haloPoint rs centerX centerY haloRadius j) =
       \<lparr>pt_x = Fin (hx - haloRadius * force * (hx - centerX) + (rs (j + 1) * 120 - 60)),
        pt_y = Fin (hy - haloRadius * force * (hy - centerY) + (rs (j + 2) * 120 - 60)),
        pt_size = (if rs (j + 3) < 0.66 then Fin 1 else Fin 2)\<rparr>"
    by (simp add: haloPoint_def h s)
  from rs have j1: "0 \<le> rs (j + 1) \<and> rs (j + 1) < 1" and j2: "0 \<le> rs (j + 2) \<and> rs (j + 2) < 1"
    by blast+
  then have jit: "- 60 \<le> rs (j + 1) * 120 - 60 \<and> rs (j + 1) * 120 - 60 < 60 \<and>
     - 60 \<le> rs (j + 2) * 120 - 60 \<and> rs (j + 2) * 120 - 60 < 60"
    by simp
  have away: "dist < sqrt ((hx - haloRadius * force * (hx - centerX) - centerX)\<^sup>2 +
                  (hy - haloRadius * force * (hy - centerY) - centerY)\<^sup>2)"
    unfolding force_def dist_def
    by (rule pushed_away [OF dp [unfolded dist_def] r])
  from h dp p jit away show ?thesis
    using dist_def force_def by blast
qed

text \<open>
  The number of the next draw after each loop of the generator: a base point takes one
  draw, each of the three scattered copies of a base point two, a scattered point around a
  random base point three, a halo point four and a projected point three.
\<close>

lemma repeat_counter:
  assumes step: "\<And>j. snd (body j) = j + d"
  shows "snd (repeat n body k) = k + d * n"
  by (induction n arbitrary: k) (simp_all add: split_beta Let_def step)

lemma for_each_counter:
  assumes step: "\<And>x j. snd (body x j) = j + d"
  shows "snd (for_each xs body k) = k + d * length xs"
  by (induction xs arbitrary: k) (simp_all add: split_beta Let_def step)

lemma basePoints_counter: "snd (basePoints rs centerX centerY k) = k + 1000"
proof -
  let ?body = "\<lambda>k. (heartFunction centerX centerY (rs k * 2 * pi), Suc k)"
  have "\<And>j. snd (?body j) = j + 1"
    by simp
  then have "snd (repeat 1000 ?body k) = k + 1 * 1000"
    by (rule repeat_counter)
  then show ?thesis
    by (simp add: basePoints_def)
qed

lemma edgeDiffusionPoints_counter:
  "snd (edgeDiffusionPoints rs centerX centerY base k) = k + 6 * length base"
proof -
  let ?body = "\<lambda>(bx, by) k.
     repeat 3 (\<lambda>k. (scatterInside centerX centerY bx by 0.05 (rs k) (rs (Suc k)), k + 2)) k"
  have "snd (?body x j) = j + 6" for x j
  proof -
    let ?inner = "\<lambda>k. (scatterInside centerX centerY (fst x) (snd x) 0.05 (rs k) (rs (Suc k)), k + 2)"
    have "\<And>j. snd (?inner j) = j + 2"
      by simp
    then have "snd (repeat 3 ?inner j) = j + 2 * 3"
      by (rule repeat_counter)
    then show ?thesis
      by (simp add: split_beta)
  qed
  then have "snd (for_each base ?body k) = k + 6 * length base"
    by (rule for_each_counter)
  then show ?thesis
    by (simp add: edgeDiffusionPoints_def split_beta Let_def)
qed

lemma centerDiffusionPoints_counter:
  "centerDiffusionPoints rs centerX centerY base n k = Some (cs, k1) \<Longrightarrow> k1 = k + 3 * n"
proof (induction n arbitrary: k cs)
  case 0
  then show ?case by simp
next
  case (Suc n)
  from Suc.prems obtain cs' where "centerDiffusionPoints rs centerX centerY base n (k + 3) = Some (cs', k1)"
    by (auto split: option.splits)
  from Suc.IH [OF this] show ?case
    by simp
qed

lemma projectPoint_step: "snd (projectPoint rs centerX centerY ratio n b j) = j + 3"
  by (simp add: projectPoint_def split_beta Let_def)

lemma generateFrame_counter:
  "snd (generateFrame rs centerX centerY base edge center frame k) =
     k + (4 * nat (haloNumber frame) + 3 * length base + 3 * length edge + 3 * length center)"
proof -
  let ?r = "4 + 6 * (1 + curve (frame_phase frame))"
  let ?ratio = "15 * curve (frame_phase frame)"
  define k1 where "k1 = snd (repeat (nat (haloNumber frame)) (haloPoint rs centerX centerY ?r) k)"
  define k2 where "k2 = snd (for_each base (projectPoint rs centerX centerY ?ratio 3) k1)"
  define k3 where "k3 = snd (for_each edge (projectPoint rs centerX centerY ?ratio 2) k2)"
  define k4 where "k4 = snd (for_each center (projectPoint rs centerX centerY ?ratio 2) k3)"
  have 1: "k1 = k + 4 * nat (haloNumber frame)"
    unfolding k1_def by (rule repeat_counter) (rule haloPoint_step)
  have 2: "k2 = k1 + 3 * length base"
    unfolding k2_def by (rule for_each_counter) (rule projectPoint_step)
  have 3: "k3 = k2 + 3 * length edge"
    unfolding k3_def by (rule for_each_counter) (rule projectPoint_step)
  have 4: "k4 = k3 + 3 * length center"
    unfolding k4_def by (rule for_each_counter) (rule projectPoint_step)
  have "snd (generateFrame rs centerX centerY base edge center frame k) = k4"
    by (simp add: generateFrame_def Let_def split_beta k4_def k3_def k2_def k1_def)
  with 1 2 3 4 show ?thesis
    by simp
qed

text \<open>The number of the first draw of each frame.\<close>

lemma framesFrom_nth_counter:
  "j < GENERATE_FRAMES - frame \<Longrightarrow>
     fst (framesFrom rs centerX centerY base edge center frame k) ! j =
       fst (generateFrame rs centerX centerY base edge center (frame + j)
         (k + (\<Sum>f = frame..<frame + j.
            4 * nat (haloNumber f) + 3 * length base + 3 * length edge + 3 * length center)))"
proof (induction rs centerX centerY base edge center frame k arbitrary: j rule: framesFrom.induct)
  case (1 rs centerX centerY base edge center frame k)
  let ?cost = "\<lambda>f. 4 * nat (haloNumber f) + 3 * length base + 3 * length edge + 3 * length center"
  from "1.prems" have lt: "frame < GENERATE_FRAMES" by simp
  obtain framePoints k1 where g: "generateFrame rs centerX centerY base edge center frame k = (framePoints, k1)"
    by (cases "generateFrame rs centerX centerY base edge center frame k") auto
  from generateFrame_counter [of rs centerX centerY base edge center frame k] g
  have k1: "k1 = k + ?cost frame"
    by simp
  have unfold: "fst (framesFrom rs centerX centerY base edge center frame k) =
      framePoints # fst (framesFrom rs centerX centerY base edge center (Suc frame) k1)"
    using lt g by (subst framesFrom.simps) (simp add: split_beta)
  show ?case
  proof (cases j)
    case 0
    then show ?thesis
      using unfold g by simp
  next
    case (Suc i)
    with "1.prems" have "i < GENERATE_FRAMES - Suc frame" by simp
    from "1.IH" [OF lt g [symmetric] refl this]
    have ih: "fst (framesFrom rs centerX centerY base edge center (Suc frame) k1) ! i =
        fst (generateFrame rs centerX centerY base edge center (Suc frame + i)
          (k1 + (\<Sum>f = Suc frame..<Suc frame + i. ?cost f)))" .
    have "frame < frame + Suc i" by simp
    then have "(\<Sum>f = frame..<frame + Suc i. ?cost f) =
        ?cost frame + (\<Sum>f = Suc frame..<frame + Suc i. ?cost f)"
      by (rule sum.atLeast_Suc_lessThan)
    then have c: "k1 + (\<Sum>f = Suc frame..<Suc frame + i. ?cost f) =
        k + (\<Sum>f = frame..<frame + Suc i. ?cost f)"
      by (simp add: k1)
    have "fst (framesFrom rs centerX centerY base edge center frame k) ! j =
        fst (framesFrom rs centerX centerY base edge center (Suc frame) k1) ! i"
      using unfold Suc by simp
    also note ih
    also note c
    finally show ?thesis
      using Suc by simp
  qed
qed

text \<open>
  The frames of a run with draws in \<open>[0, 1)\<close>: the three point sets take the draws 0 to
  21999 (1000, 6000 and 15000 of them), the frames start at draw 22000.
\<close>

lemma generatedFrames_draws:
  assumes rs: "\<forall>k. 0 \<le> rs k \<and> rs k < 1"
  shows "\<exists>base edge center. length base = 1000 \<and> length edge = 3000 \<and> length center = 5000 \<and>
     generatedFrames rs width height =
       Some (fst (framesFrom rs (width / 2) (height / 2) base edge center 0 22000))"
proof -
  let ?cx = "width / 2" and ?cy = "height / 2"
  obtain base k1 where b: "basePoints rs ?cx ?cy 0 = (base, k1)"
    by (cases "basePoints rs ?cx ?cy 0") auto
  obtain edge k2 where e: "edgeDiffusionPoints rs ?cx ?cy base k1 = (edge, k2)"
    by (cases "edgeDiffusionPoints rs ?cx ?cy base k1") auto
  have lb: "length base = 1000"
    using basePoints_length [of rs ?cx ?cy 0] b by simp
  have le: "length edge = 3000"
    using edgeDiffusionPoints_length [of rs ?cx ?cy base k1] e lb by simp
  have k1: "k1 = 1000"
    using basePoints_counter [of rs ?cx ?cy 0] b by simp
  have k2: "k2 = 7000"
    using edgeDiffusionPoints_counter [of rs ?cx ?cy base k1] e lb k1 by simp
  from lb have "base \<noteq> []" by auto
  from centerDiffusionPoints_length [OF rs this, of ?cx ?cy 5000 k2] obtain center k3
    where c: "centerDiffusionPoints rs ?cx ?cy base 5000 k2 = Some (center, k3)" "length center = 5000"
    by blast
  from centerDiffusionPoints_counter [OF c(1)] k2 have k3: "k3 = 22000"
    by simp
  have "generatedFrames rs width height = Some (fst (framesFrom rs ?cx ?cy base edge center 0 k3))"
    using b e c by (simp add: generatedFrames_def Let_def)
  with lb le c k3 show ?thesis by blast
qed

lemma generatedFrames_halo:
  assumes rs: "\<forall>k. 0 \<le> rs k \<and> rs k < 1" and fr: "frame < 20" and i: "i < nat (haloNumber frame)"
  shows "\<exists>fs. generatedFrames rs width height = Some fs \<and>
     fs ! frame ! i =
       fst (haloPoint rs (width / 2) (height / 2) (4 + 6 * (1 + curve (frame_phase frame)))
         (22000 + (\<Sum>f<frame. 4 * nat (haloNumber f) + 27000) + 4 * i))"
proof -
  let ?cx = "width / 2" and ?cy = "height / 2"
  from generatedFrames_draws [OF rs, of width height] obtain base edge center
    where lb: "length base = 1000" and le: "length edge = 3000" and lc: "length center = 5000"
      and g: "generatedFrames rs width height = Some (fst (framesFrom rs ?cx ?cy base edge center 0 22000))"
    by blast
  let ?fs = "fst (framesFrom rs ?cx ?cy base edge center 0 22000)"
  from fr have lt: "frame < GENERATE_FRAMES - 0" by (simp add: GENERATE_FRAMES_def)
  have cost: "(\<lambda>f. 4 * nat (haloNumber f) + 3 * length base + 3 * length edge + 3 * length center) =
      (\<lambda>f. 4 * nat (haloNumber f) + 27000)"
    unfolding lb le lc by (rule ext) linarith
  from framesFrom_nth_counter [OF lt, of rs ?cx ?cy base edge center 22000]
  have "?fs ! frame = fst (generateFrame rs ?cx ?cy base edge center frame
      (22000 + (\<Sum>f<frame. 4 * nat (haloNumber f) + 27000)))"
    by (simp only: cost atLeast0LessThan add_0)
  then have "?fs ! frame ! i = fst (haloPoint rs ?cx ?cy (4 + 6 * (1 + curve (frame_phase frame)))
      (22000 + (\<Sum>f<frame. 4 * nat (haloNumber f) + 27000) + 4 * i))"
    using generateFrame_halo [OF i] by simp
  with g show ?thesis by blast
qed

text \<open>
  The draws of two halo points are apart: each frame starts after the draws of the frame
  before it, and each halo point of a frame four draws after the one before it.
\<close>

lemma frame_draws_mono:
  assumes "frame' < frame"
  shows "(\<Sum>f<frame'. 4 * nat (haloNumber f) + 27000) + (4 * nat (haloNumber frame') + 27000) \<le>
     (\<Sum>f<frame. 4 * nat (haloNumber f) + 27000)"
proof -
  from assms have "{..<Suc frame'} \<subseteq> {..<frame}"
    by auto
  then have "(\<Sum>f<Suc frame'. 4 * nat (haloNumber f) + 27000) \<le> (\<Sum>f<frame. 4 * nat (haloNumber f) + 27000)"
    by (intro sum_mono2) simp_all
  then show ?thesis
    by simp
qed

lemma halo_draws_apart:
  assumes i: "i < nat (haloNumber frame)" and i': "i' < nat (haloNumber frame')"
    and ne: "(frame', i') \<noteq> (frame, i)"
  shows "22000 + (\<Sum>f<frame'. 4 * nat (haloNumber f) + 27000) + 4 * i' + 3 <
           22000 + (\<Sum>f<frame. 4 * nat (haloNumber f) + 27000) + 4 * i \<or>
         22000 + (\<Sum>f<frame. 4 * nat (haloNumber f) + 27000) + 4 * i + 3 <
           22000 + (\<Sum>f<frame'. 4 * nat (haloNumber f) + 27000) + 4 * i'"
proof -
  define S where "S = (\<lambda>frame. \<Sum>f<frame. 4 * nat (haloNumber f) + 27000)"
  consider "frame' < frame" | "frame < frame'" | "frame' = frame" "i' \<noteq> i"
    using ne by force
  then have "22000 + S frame' + 4 * i' + 3 < 22000 + S frame + 4 * i \<or>
         22000 + S frame + 4 * i + 3 < 22000 + S frame' + 4 * i'"
  proof cases
    case 1
    from frame_draws_mono [OF this] have "S frame' + (4 * nat (haloNumber frame') + 27000) \<le> S frame"
      by (simp only: S_def)
    with i' show ?thesis
      by linarith
  next
    case 2
    from frame_draws_mono [OF this] have "S frame + (4 * nat (haloNumber frame) + 27000) \<le> S frame'"
      by (simp only: S_def)
    with i show ?thesis
      by linarith
  next
    case 3
    then show ?thesis
      by auto
  qed
  then show ?thesis
    unfolding S_def .
qed

text \<open>
  Claim C6, amended. In a run of the generator with draws in \<open>[0, 1)\<close>, point number \<open>i\<close>
  of the first \<open>haloNumber\<close> points of frame number \<open>frame\<close> is made from the four draws
  number \<open>c\<close> to \<open>c + 3\<close> for
  \<open>c = 22000 + (\<Sum>f<frame. 4 haloNumber(f) + 27000) + 4i\<close>: the point sets take the draws
  below 22000, each frame before this one four draws for each of its halo points and three
  for each of its 9000 projected points, and each halo point before this one four. The
  point is: the point \<open>(hx, hy)\<close> of the heart curve at \<open>t = 2\<pi>u\<close> for the first draw \<open>u\<close>,
  which is never the centre; \<^verbatim>\<open>shrink\<close> of it, which is
  \<open>h - haloRadius * force * (h - centre)\<close> with \<open>force = - 1 / distance ^ 1.2\<close> (the code
  raises the squared distance to the power 0.6) and lies farther from the centre than \<open>h\<close>;
  a jitter \<open>120u - 60\<close> in \<open>[-60, 60)\<close> on each axis from the second and third draws; and
  size 1 if the fourth draw is below 0.66, size 2 otherwise. Here
  \<open>haloRadius = 4 + 6 (1 + curve(p))\<close> for the phase \<open>p\<close> of the frame. The four draws are
  the point's own: the draws of any other halo point, of this frame or another, all come
  before them or all after them.
\<close>

theorem halo_points:
  "\<forall>k. 0 \<le> rs k \<and> rs k < 1 \<Longrightarrow> frame < 20 \<Longrightarrow>
     \<exists>fs. generatedFrames rs width height = Some fs \<and>
       (\<forall>i < nat (haloNumber frame).
          let c = 22000 + (\<Sum>f<frame. 4 * nat (haloNumber f) + 27000) + 4 * i in
          (\<exists>hx hy dist force.
             heartFunction (width / 2) (height / 2) (rs c * 2 * pi) = (Fin hx, Fin hy) \<and>
             dist = sqrt ((hx - width / 2)\<^sup>2 + (hy - height / 2)\<^sup>2) \<and> 0 < dist \<and>
             force = - 1 / dist powr 1.2 \<and>
             fs ! frame ! i =
               \<lparr>pt_x = Fin (hx - (4 + 6 * (1 + curve (frame_phase frame))) * force * (hx - width / 2)
                            + (rs (c + 1) * 120 - 60)),
                pt_y = Fin (hy - (4 + 6 * (1 + curve (frame_phase frame))) * force * (hy - height / 2)
                            + (rs (c + 2) * 120 - 60)),
                pt_size = (if rs (c + 3) < 0.66 then Fin 1 else Fin 2)\<rparr> \<and>
             - 60 \<le> rs (c + 1) * 120 - 60 \<and> rs (c + 1) * 120 - 60 < 60 \<and>
             - 60 \<le> rs (c + 2) * 120 - 60 \<and> rs (c + 2) * 120 - 60 < 60 \<and>
             dist < sqrt ((hx - (4 + 6 * (1 + curve (frame_phase frame))) * force * (hx - width / 2) - width / 2)\<^sup>2 +
                          (hy - (4 + 6 * (1 + curve (frame_phase frame))) * force * (hy - height / 2) - height / 2)\<^sup>2)) \<and>
          (\<forall>frame' < 20. \<forall>i' < nat (haloNumber frame'). (frame', i') \<noteq> (frame, i) \<longrightarrow>
             22000 + (\<Sum>f<frame'. 4 * nat (haloNumber f) + 27000) + 4 * i' + 3 < c \<or>
             c + 3 < 22000 + (\<Sum>f<frame'. 4 * nat (haloNumber f) + 27000) + 4 * i'))"
proof -
  assume rs: "\<forall>k. 0 \<le> rs k \<and> rs k < 1" and fr: "frame < 20"
  let ?cx = "width / 2" and ?cy = "height / 2"
  let ?r = "4 + 6 * (1 + curve (frame_phase frame))"
  define c0 where "c0 = 22000 + (\<Sum>f<frame. 4 * nat (haloNumber f) + 27000)"
  from generatedFrames_draws [OF rs, of width height] obtain fs
    where g: "generatedFrames rs width height = Some fs"
    by blast
  have r: "0 < ?r" by (rule haloRadius_pos)
  {
    fix i
    assume i: "i < nat (haloNumber frame)"
    from generatedFrames_halo [OF rs fr i, of width height] g
    have "fs ! frame ! i = fst (haloPoint rs ?cx ?cy ?r (c0 + 4 * i))"
      by (simp add: c0_def)
    with haloPoint_described [OF rs r, of ?cx ?cy "c0 + 4 * i"]
    have a: "\<exists>hx hy dist force.
          heartFunction ?cx ?cy (rs (c0 + 4 * i) * 2 * pi) = (Fin hx, Fin hy) \<and>
          dist = sqrt ((hx - ?cx)\<^sup>2 + (hy - ?cy)\<^sup>2) \<and> 0 < dist \<and>
          force = - 1 / dist powr 1.2 \<and>
          fs ! frame ! i =
            \<lparr>pt_x = Fin (hx - ?r * force * (hx - ?cx) + (rs (c0 + 4 * i + 1) * 120 - 60)),
             pt_y = Fin (hy - ?r * force * (hy - ?cy) + (rs (c0 + 4 * i + 2) * 120 - 60)),
             pt_size = (if rs (c0 + 4 * i + 3) < 0.66 then Fin 1 else Fin 2)\<rparr> \<and>
          - 60 \<le> rs (c0 + 4 * i + 1) * 120 - 60 \<and> rs (c0 + 4 * i + 1) * 120 - 60 < 60 \<and>
          - 60 \<le> rs (c0 + 4 * i + 2) * 120 - 60 \<and> rs (c0 + 4 * i + 2) * 120 - 60 < 60 \<and>
          dist < sqrt ((hx - ?r * force * (hx - ?cx) - ?cx)\<^sup>2 + (hy - ?r * force * (hy - ?cy) - ?cy)\<^sup>2)"
      by (simp only:)
    have b: "\<forall>frame' < 20. \<forall>i' < nat (haloNumber frame'). (frame', i') \<noteq> (frame, i) \<longrightarrow>
             22000 + (\<Sum>f<frame'. 4 * nat (haloNumber f) + 27000) + 4 * i' + 3 < c0 + 4 * i \<or>
             c0 + 4 * i + 3 < 22000 + (\<Sum>f<frame'. 4 * nat (haloNumber f) + 27000) + 4 * i'"
      unfolding c0_def using halo_draws_apart [OF i] by blast
    note conjI [OF a b]
  }
  with g have "\<exists>fs. generatedFrames rs width height = Some fs \<and>
       (\<forall>i < nat (haloNumber frame).
          (\<exists>hx hy dist force.
          heartFunction ?cx ?cy (rs (c0 + 4 * i) * 2 * pi) = (Fin hx, Fin hy) \<and>
          dist = sqrt ((hx - ?cx)\<^sup>2 + (hy - ?cy)\<^sup>2) \<and> 0 < dist \<and>
          force = - 1 / dist powr 1.2 \<and>
          fs ! frame ! i =
            \<lparr>pt_x = Fin (hx - ?r * force * (hx - ?cx) + (rs (c0 + 4 * i + 1) * 120 - 60)),
             pt_y = Fin (hy - ?r * force * (hy - ?cy) + (rs (c0 + 4 * i + 2) * 120 - 60)),
             pt_size = (if rs (c0 + 4 * i + 3) < 0.66 then Fin 1 else Fin 2)\<rparr> \<and>
          - 60 \<le> rs (c0 + 4 * i + 1) * 120 - 60 \<and> rs (c0 + 4 * i + 1) * 120 - 60 < 60 \<and>
          - 60 \<le> rs (c0 + 4 * i + 2) * 120 - 60 \<and> rs (c0 + 4 * i + 2) * 120 - 60 < 60 \<and>
          dist < sqrt ((hx - ?r * force * (hx - ?cx) - ?cx)\<^sup>2 + (hy - ?r * force * (hy - ?cy) - ?cy)\<^sup>2)) \<and>
          (\<forall>frame' < 20. \<forall>i' < nat (haloNumber frame'). (frame', i') \<noteq> (frame, i) \<longrightarrow>
             22000 + (\<Sum>f<frame'. 4 * nat (haloNumber f) + 27000) + 4 * i' + 3 < c0 + 4 * i \<or>
             c0 + 4 * i + 3 < 22000 + (\<Sum>f<frame'. 4 * nat (haloNumber f) + 27000) + 4 * i'))"
    by blast
  then show ?thesis
    unfolding Let_def c0_def .
qed

lemma powr_88: "(88::real) powr 0.6 < 88 powr 1.2"
  by (rule powr_less_mono) simp_all

text \<open>
  The claim as stated fails for the first possible halo point of frame 0 on a canvas of
  840 by 680: the point \<open>(420, 252)\<close> of the heart curve with \<open>haloRadius = 10\<close>. The
  result of \<^verbatim>\<open>shrink\<close> is not the one that \<open>force = - 1 / distance ^ 0.6\<close> gives, and it is
  farther from the centre \<open>(420, 340)\<close> than the point, not nearer.
\<close>

theorem shrink_counterexample:
  "shrink 420 340 (Fin 420) (Fin 252) (Fin 10) \<noteq>
     (Fin (420 - 10 * (- 1 / sqrt ((420 - 420)\<^sup>2 + (252 - 340)\<^sup>2) powr 0.6) * (420 - 420)),
      Fin (252 - 10 * (- 1 / sqrt ((420 - 420)\<^sup>2 + (252 - 340)\<^sup>2) powr 0.6) * (252 - 340))) \<and>
   shrink 420 340 (Fin 420) (Fin 252) (Fin 10) = (Fin 420, Fin (252 - 880 / 88 powr 1.2)) \<and>
   \<bar>252 - 340\<bar> < \<bar>252 - 880 / 88 powr 1.2 - 340 :: real\<bar>"
proof -
  define a b :: real where "a = 88 powr 1.2" and "b = 88 powr 0.6"
  have ab: "b < a" unfolding a_def b_def by (rule powr_88)
  have b: "0 < b" and a: "0 < a" unfolding a_def b_def by simp_all
  have s: "shrink 420 340 (Fin 420) (Fin 252) (Fin 10) = (Fin 420, Fin (252 - 880 / a))"
    unfolding a_def by (simp add: shrink_finite sqrt_7744)
  from ab a b have "880 / a < 880 / b"
    by (simp add: frac_less2)
  then have "252 - 880 / b < 252 - 880 / a" by linarith
  then have "252 - 880 / a \<noteq> 252 - 880 / b" by linarith
  then have c1: "shrink 420 340 (Fin 420) (Fin 252) (Fin 10) \<noteq>
     (Fin (420 - 10 * (- 1 / sqrt ((420 - 420)\<^sup>2 + (252 - 340)\<^sup>2) powr 0.6) * (420 - 420)),
      Fin (252 - 10 * (- 1 / sqrt ((420 - 420)\<^sup>2 + (252 - 340)\<^sup>2) powr 0.6) * (252 - 340)))"
    unfolding s by (simp add: sqrt_7744 b_def)
  from a have "0 < 880 / a" by simp
  then have c3: "\<bar>252 - 340\<bar> < \<bar>252 - 880 / a - 340 :: real\<bar>"
    by linarith
  from c1 s c3 show ?thesis
    unfolding a_def by blast
qed

lemma heartFunction_pi: "heartFunction 420 340 pi = (Fin 420, Fin 538)"
proof -
  have "cos (3 * pi) = 4 * cos pi ^ 3 - 3 * cos pi"
    by (rule cos_treble_cos)
  then have "cos (3 * pi) = - 1" by simp
  then show ?thesis
    by (simp add: heartFunction_def Let_def IMAGE_ENLARGE_def)
qed

lemma sqrt_198: "sqrt (198\<^sup>2) = 198"
  by (simp only: real_sqrt_abs abs_numeral)

text \<open>
  Frame 1 starts at draw \<open>22000 + 4 * 1500 + 27000 = 55000\<close>. In the run on a canvas of
  840 by 680 in which that draw is \<open>1 / 2\<close> and every other draw 0, the first halo point
  of frame 1 is made from the point \<open>(420, 538)\<close> of the heart curve at \<open>t = \<pi>\<close>, with
  the jitter \<open>- 60\<close> on each axis and size 1.
\<close>

theorem halo_points_witness:
  "\<exists>fs. generatedFrames (\<lambda>k. if k = 55000 then 1 / 2 else 0) 840 680 = Some fs \<and>
     fs ! 1 ! 0 =
       \<lparr>pt_x = Fin 360,
        pt_y = Fin (538 + (4 + 6 * (1 + curve (frame_phase 1))) * (1 / 198 powr 1.2) * 198 - 60),
        pt_size = Fin 1\<rparr>"
proof -
  define rs :: "nat \<Rightarrow> real" where "rs = (\<lambda>k. if k = 55000 then 1 / 2 else 0)"
  have rs: "\<forall>k. 0 \<le> rs k \<and> rs k < 1"
    by (simp add: rs_def)
  have fr: "(1::nat) < 20"
    by simp
  have h0: "haloNumber 0 = 1500"
    by (simp add: haloNumber_def frame_phase_def curve_def)
  have c: "22000 + (\<Sum>f<1. 4 * nat (haloNumber f) + 27000) + 4 * 0 = (55000::nat)"
    by (simp add: h0)
  have i: "0 < nat (haloNumber 1)"
    using haloNumber_ge [of 1] by simp
  from halo_points [OF rs fr, of 840 680] obtain fs
    where g: "generatedFrames rs 840 680 = Some fs"
      and h: "\<forall>i < nat (haloNumber 1).
          let c = 22000 + (\<Sum>f<1. 4 * nat (haloNumber f) + 27000) + 4 * i in
          (\<exists>hx hy dist force.
             heartFunction (840 / 2) (680 / 2) (rs c * 2 * pi) = (Fin hx, Fin hy) \<and>
             dist = sqrt ((hx - 840 / 2)\<^sup>2 + (hy - 680 / 2)\<^sup>2) \<and> 0 < dist \<and>
             force = - 1 / dist powr 1.2 \<and>
             fs ! 1 ! i =
               \<lparr>pt_x = Fin (hx - (4 + 6 * (1 + curve (frame_phase 1))) * force * (hx - 840 / 2)
                            + (rs (c + 1) * 120 - 60)),
                pt_y = Fin (hy - (4 + 6 * (1 + curve (frame_phase 1))) * force * (hy - 680 / 2)
                            + (rs (c + 2) * 120 - 60)),
                pt_size = (if rs (c + 3) < 0.66 then Fin 1 else Fin 2)\<rparr> \<and>
             - 60 \<le> rs (c + 1) * 120 - 60 \<and> rs (c + 1) * 120 - 60 < 60 \<and>
             - 60 \<le> rs (c + 2) * 120 - 60 \<and> rs (c + 2) * 120 - 60 < 60 \<and>
             dist < sqrt ((hx - (4 + 6 * (1 + curve (frame_phase 1))) * force * (hx - 840 / 2) - 840 / 2)\<^sup>2 +
                          (hy - (4 + 6 * (1 + curve (frame_phase 1))) * force * (hy - 680 / 2) - 680 / 2)\<^sup>2)) \<and>
          (\<forall>frame' < 20. \<forall>i' < nat (haloNumber frame'). (frame', i') \<noteq> (1, i) \<longrightarrow>
             22000 + (\<Sum>f<frame'. 4 * nat (haloNumber f) + 27000) + 4 * i' + 3 < c \<or>
             c + 3 < 22000 + (\<Sum>f<frame'. 4 * nat (haloNumber f) + 27000) + 4 * i')"
    by blast
  from h i have "let c = 22000 + (\<Sum>f<1. 4 * nat (haloNumber f) + 27000) + 4 * 0 in
          (\<exists>hx hy dist force.
             heartFunction (840 / 2) (680 / 2) (rs c * 2 * pi) = (Fin hx, Fin hy) \<and>
             dist = sqrt ((hx - 840 / 2)\<^sup>2 + (hy - 680 / 2)\<^sup>2) \<and> 0 < dist \<and>
             force = - 1 / dist powr 1.2 \<and>
             fs ! 1 ! 0 =
               \<lparr>pt_x = Fin (hx - (4 + 6 * (1 + curve (frame_phase 1))) * force * (hx - 840 / 2)
                            + (rs (c + 1) * 120 - 60)),
                pt_y = Fin (hy - (4 + 6 * (1 + curve (frame_phase 1))) * force * (hy - 680 / 2)
                            + (rs (c + 2) * 120 - 60)),
                pt_size = (if rs (c + 3) < 0.66 then Fin 1 else Fin 2)\<rparr> \<and>
             - 60 \<le> rs (c + 1) * 120 - 60 \<and> rs (c + 1) * 120 - 60 < 60 \<and>
             - 60 \<le> rs (c + 2) * 120 - 60 \<and> rs (c + 2) * 120 - 60 < 60 \<and>
             dist < sqrt ((hx - (4 + 6 * (1 + curve (frame_phase 1))) * force * (hx - 840 / 2) - 840 / 2)\<^sup>2 +
                          (hy - (4 + 6 * (1 + curve (frame_phase 1))) * force * (hy - 680 / 2) - 680 / 2)\<^sup>2)) \<and>
          (\<forall>frame' < 20. \<forall>i' < nat (haloNumber frame'). (frame', i') \<noteq> (1, 0) \<longrightarrow>
             22000 + (\<Sum>f<frame'. 4 * nat (haloNumber f) + 27000) + 4 * i' + 3 < c \<or>
             c + 3 < 22000 + (\<Sum>f<frame'. 4 * nat (haloNumber f) + 27000) + 4 * i')"
    by blast
  then obtain hx hy dist force
    where hf: "heartFunction (840 / 2) (680 / 2) (rs 55000 * 2 * pi) = (Fin hx, Fin hy)"
      and d: "dist = sqrt ((hx - 840 / 2)\<^sup>2 + (hy - 680 / 2)\<^sup>2)"
      and f: "force = - 1 / dist powr 1.2"
      and p: "fs ! 1 ! 0 =
            \<lparr>pt_x = Fin (hx - (4 + 6 * (1 + curve (frame_phase 1))) * force * (hx - 840 / 2)
                         + (rs (55000 + 1) * 120 - 60)),
             pt_y = Fin (hy - (4 + 6 * (1 + curve (frame_phase 1))) * force * (hy - 680 / 2)
                         + (rs (55000 + 2) * 120 - 60)),
             pt_size = (if rs (55000 + 3) < 0.66 then Fin 1 else Fin 2)\<rparr>"
    unfolding Let_def c by blast
  from hf have hx: "hx = 420" and hy: "hy = 538"
    by (simp_all add: heartFunction_pi rs_def)
  have dist: "dist = 198"
    unfolding d hx hy using sqrt_198 by simp
  have "fs ! 1 ! 0 =
       \<lparr>pt_x = Fin 360,
        pt_y = Fin (538 + (4 + 6 * (1 + curve (frame_phase 1))) * (1 / 198 powr 1.2) * 198 - 60),
        pt_size = Fin 1\<rparr>"
    unfolding p f dist hx hy by (simp add: rs_def)
  with g show ?thesis
    unfolding rs_def by blast
qed

end
